theory Spec2Isabelle
  imports Main "HOL-Library.Multiset"
begin

section \<open>Data model\<close>

text \<open>
  A normalized character as the engines see it (dataLoader.js, normalizeCharacter).
  Only the fields the engines read are kept: \<open>id\<close> (here \<open>cid\<close>), \<open>name\<close>,
  \<open>origin\<close>, \<open>highestTier\<close> (\<open>None\<close> is JavaScript's null) and the two fields of
  \<open>_raw\<close> that getCharacterKey falls back to (\<open>None\<close> when \<open>_raw\<close> or the field
  is missing).
\<close>

record character =
  cid :: string
  name :: string
  origin :: string
  highestTier :: "string option"
  rawName :: "string option"
  rawOrigin :: "string option"

text \<open>settings.js: the fields of the settings object that the engines consult.\<close>

record settings =
  veryHardMode :: bool
  customMode :: bool
  customSeries :: "string list"

text \<open>
  stats.js: the lifetime counters. They are JavaScript numbers, that is IEEE doubles;
  a counter is modelled by the integer the double holds. loadStats merges whatever
  numbers the storage has, so a counter can be any such integer, also one at or beyond
  2^53, where doubles no longer hold every integer.
\<close>

record stats =
  totalRounds :: int
  totalCorrectRounds :: int
  bestStreak :: int

datatype phase = loading | inRound | afterCorrect | afterWrong | error

section \<open>tierUtils.js\<close>

definition TIER_ORDER :: "string list" where
  "TIER_ORDER =
    [''Tier 0'',
     ''High 1-A'', ''1-A'', ''Low 1-A'',
     ''High 1-B'', ''1-B'', ''1-C'', ''Low 1-C'',
     ''2-A'', ''2-B'', ''2-C'', ''Low 2-C'',
     ''High 3-A'', ''3-A'', ''3-B'', ''3-C'',
     ''4-A'', ''4-B'', ''High 4-C'', ''4-C'', ''Low 4-C'',
     ''High 5-A'', ''5-A'', ''5-B'', ''Low 5-B'', ''5-C'',
     ''Tier 6'', ''High 6-A'', ''6-A'', ''High 6-B'', ''6-B'', ''Low 6-B'', ''High 6-C'', ''6-C'',
     ''High 7-A'', ''7-A'', ''7-B'', ''Low 7-B'', ''High 7-C'', ''7-C'', ''Low 7-C'',
     ''8-A'', ''8-B'', ''High 8-C'', ''8-C'',
     ''9-A'', ''9-B'', ''9-C'',
     ''10-A'', ''10-B'', ''10-C'',
     ''11-A'', ''11-B'', ''11-C'']"

text \<open>Array.prototype.indexOf: the first position of the element, or -1.\<close>

fun indexOf :: "'a list \<Rightarrow> 'a \<Rightarrow> int" where
  "indexOf [] x = - 1"
| "indexOf (y # ys) x =
     (if y = x then 0
      else (let i = indexOf ys x in if i < 0 then - 1 else i + 1))"

text \<open>
  getTierIndex(tier). The argument is whatever \<open>highestTier\<close> holds; null is not an
  element of the ladder, so it gets -1 as any unknown label does.
\<close>

definition getTierIndex :: "string option \<Rightarrow> int" where
  "getTierIndex tier =
     (case tier of None \<Rightarrow> - 1 | Some t \<Rightarrow> indexOf TIER_ORDER t)"

text \<open>getStrongerCharacter(a, b); \<open>None\<close> is the returned null.\<close>

definition getStrongerCharacter :: "character \<Rightarrow> character \<Rightarrow> character option" where
  "getStrongerCharacter a b =
     (let idxA = getTierIndex (highestTier a);
          idxB = getTierIndex (highestTier b)
      in if idxA < 0 \<or> idxB < 0 then None
         else if idxA < idxB then Some a else Some b)"

section \<open>stats.js\<close>

text \<open>
  \<open>x += 1\<close> on a double that holds the integer \<open>x\<close>: the sum is rounded to the
  nearest double, ties to the even mantissa. Up to magnitude 2^53 every integer is a
  double and the sum is exact. From 2^53 to 2^54 the doubles are the even integers, so
  \<open>x + 1\<close> lies halfway between \<open>x\<close> and \<open>x + 2\<close> and goes to the one whose half is
  even. From 2^54 on the doubles are at least 4 apart and the sum rounds back to \<open>x\<close>.
\<close>

definition jsAddOne :: "int \<Rightarrow> int" where
  "jsAddOne x =
     (if \<bar>x + 1\<bar> \<le> 2 ^ 53 then x + 1
      else if \<bar>x\<bar> < 2 ^ 54 then (if x mod 4 = 0 then x else x + 2)
      else x)"

text \<open>
  recordRound(correct, streakAfterRound) on the module's \<open>stats\<close> object, passed and
  returned explicitly. The comparison and the assignment of bestStreak involve no
  arithmetic. saveStats only writes the object to storage and swallows every failure,
  so it does not change the counters.
\<close>

definition recordRound :: "bool \<Rightarrow> int \<Rightarrow> stats \<Rightarrow> stats" where
  "recordRound correct streakAfterRound st =
     (let st1 = st\<lparr>totalRounds := jsAddOne (totalRounds st)\<rparr>
      in if correct then
           (let st2 = st1\<lparr>totalCorrectRounds := jsAddOne (totalCorrectRounds st1)\<rparr>
            in if streakAfterRound > bestStreak st2
               then st2\<lparr>bestStreak := streakAfterRound\<rparr>
               else st2)
         else st1)"

text \<open>A sequence of calls, oldest first.\<close>

fun recordRounds :: "(bool \<times> int) list \<Rightarrow> stats \<Rightarrow> stats" where
  "recordRounds [] st = st"
| "recordRounds ((c, s) # calls) st = recordRounds calls (recordRound c s st)"

section \<open>Shared modelling devices\<close>

text \<open>
  The exceptions the engines can raise. The only one is the TypeError of destructuring
  \<open>undefined\<close> in startNewRound.
\<close>

datatype js_error = TypeError

text \<open>
  \<open>Math.floor(Math.random() * n)\<close>: the random number is supplied from outside as a
  natural number \<open>r\<close> and reduced into \<open>{0..<n}\<close>; every index below \<open>n\<close> is the
  result for some \<open>r\<close>. For \<open>n = 0\<close> the product is 0.
\<close>

definition randomIndex :: "nat \<Rightarrow> nat \<Rightarrow> nat" where
  "randomIndex r n = (if n = 0 then 0 else r mod n)"

text \<open>\<open>arr[i]\<close>: reading past the end gives \<open>undefined\<close>, here \<open>None\<close>.\<close>

definition arrayGet :: "'a list \<Rightarrow> nat \<Rightarrow> 'a option" where
  "arrayGet xs i = (if i < length xs then Some (xs ! i) else None)"

text \<open>
  getCharacterKey(c), the same function in both engines:
  \<open>c.name || c._raw?.Name || ''\<close>, then \<open>::\<close>, then the same for the origin.
  The empty string is falsy.
\<close>

definition getCharacterKey :: "character \<Rightarrow> string" where
  "getCharacterKey c =
     (let nm = (if name c \<noteq> [] then name c
                else case rawName c of None \<Rightarrow> [] | Some n \<Rightarrow> n);
          orig = (if origin c \<noteq> [] then origin c
                  else case rawOrigin c of None \<Rightarrow> [] | Some n \<Rightarrow> n)
      in nm @ ''::'' @ orig)"

text \<open>
  A JavaScript \<open>Map\<close> from tier label to the array of its characters. Insertion order
  matters (\<open>groups.keys()\<close>), so it is an association list with distinct keys.
  \<open>groupsPush\<close> is the body of the grouping loop: create the entry when the key is
  new, then push the character onto the key's array.
\<close>

type_synonym groups = "(string \<times> character list) list"

definition groupsGet :: "groups \<Rightarrow> string \<Rightarrow> character list option" where
  "groupsGet groups key = map_of groups key"

fun groupsPush :: "groups \<Rightarrow> string \<Rightarrow> character \<Rightarrow> groups" where
  "groupsPush [] key c = [(key, [c])]"
| "groupsPush ((k, cs) # rest) key c =
     (if k = key then (k, cs @ [c]) # rest else (k, cs) # groupsPush rest key c)"

text \<open>
  The grouping loop of both engines; \<open>if (!c.highestTier) continue\<close> skips null and
  the empty string.
\<close>

definition groupByTier :: "character list \<Rightarrow> groups" where
  "groupByTier pool =
     foldl (\<lambda>groups c.
              case highestTier c of
                None \<Rightarrow> groups
              | Some key \<Rightarrow> if key = [] then groups else groupsPush groups key c)
           [] pool"

text \<open>The state both engines keep for a run, extended by each engine's round.\<close>

record runState =
  phase :: phase
  streak :: int
  usedCharacterKeys :: "string set"

section \<open>gameLogic.js (Classic engine)\<close>

record gameState = runState +
  currentPair :: "(character \<times> character) option"
  correctId :: "string option"

definition initGameState :: gameState where
  "initGameState =
     \<lparr>phase = inRound, streak = 0, usedCharacterKeys = {},
      currentPair = None, correctId = None\<rparr>"

definition buildFilteredGroups :: "settings \<Rightarrow> character list \<Rightarrow> groups" where
  "buildFilteredGroups s allChars =
     (let pool = allChars;
          pool = (if veryHardMode s
                  then filter (\<lambda>c. highestTier c \<noteq> Some ''Tier 0'') pool else pool);
          pool = (if customMode s \<and> length (customSeries s) > 0
                  then filter (\<lambda>c. origin c \<in> set (customSeries s)) pool else pool)
      in groupByTier pool)"

definition pickCharacterFromGroup ::
    "gameState \<Rightarrow> nat \<Rightarrow> character list option \<Rightarrow> character option" where
  "pickCharacterFromGroup g r grp =
     (case grp of
        None \<Rightarrow> None
      | Some cs \<Rightarrow>
          if cs = [] then None
          else (let available = filter (\<lambda>c. getCharacterKey c \<notin> usedCharacterKeys g) cs
                in if available = [] then None
                   else arrayGet available (randomIndex r (length available))))"

text \<open>
  The two nested \<open>for\<close> statements of startNewRound visit \<open>(tiers[i], tiers[j])\<close> for \<open>i < j\<close>,
  row by row.
\<close>

fun tierPairs :: "string list \<Rightarrow> (string \<times> string) list" where
  "tierPairs [] = []"
| "tierPairs (t # ts) = map (Pair t) ts @ tierPairs ts"

definition distance :: "string \<Rightarrow> string \<Rightarrow> int" where
  "distance tA tB = \<bar>getTierIndex (Some tA) - getTierIndex (Some tB)\<bar>"

text \<open>
  The candidate pairs as src/js/gameLogic.js collects them: under veryHardMode the
  pairs with \<open>distance >= 3\<close>, otherwise every pair.
\<close>

definition candidatePairs :: "settings \<Rightarrow> string list \<Rightarrow> (string \<times> string) list" where
  "candidatePairs s tiers =
     filter (\<lambda>(tA, tB). if veryHardMode s then distance tA tB \<ge> 3 else True)
            (tierPairs tiers)"

text \<open>
  The candidate pairs as the second copy of the engine (src/unnamed/part_004) collects
  them: under veryHardMode the pairs with \<open>distance === 3\<close>, otherwise those with
  \<open>distance > 0\<close>.
\<close>

definition candidatePairs_p4 :: "settings \<Rightarrow> string list \<Rightarrow> (string \<times> string) list" where
  "candidatePairs_p4 s tiers =
     filter (\<lambda>(tA, tB). if veryHardMode s then distance tA tB = 3 else distance tA tB > 0)
            (tierPairs tiers)"

text \<open>
  One pass through the body of the retry loop. \<open>rnd 0\<close>, \<open>rnd 1\<close>, \<open>rnd 2\<close> are the
  random numbers of the three draws of this pass. The result is the TypeError of
  destructuring \<open>undefined\<close> (an empty candidate list), \<open>None\<close> for
  \<open>attempts++; continue\<close>, or the committed state.
\<close>

definition attemptRound ::
    "groups \<Rightarrow> (string \<times> string) list \<Rightarrow> (nat \<Rightarrow> nat) \<Rightarrow> gameState
     \<Rightarrow> js_error + gameState option" where
  "attemptRound groups cands rnd g =
     (case arrayGet cands (randomIndex (rnd 0) (length cands)) of
        None \<Rightarrow> Inl TypeError
      | Some (tierA, tierB) \<Rightarrow>
          (let left = pickCharacterFromGroup g (rnd 1) (groupsGet groups tierA);
               right = pickCharacterFromGroup g (rnd 2) (groupsGet groups tierB)
           in case left of
                None \<Rightarrow> Inr None
              | Some l \<Rightarrow>
                  (case right of
                     None \<Rightarrow> Inr None
                   | Some r \<Rightarrow>
                       (case getStrongerCharacter l r of
                          None \<Rightarrow> Inr None
                        | Some stronger \<Rightarrow>
                            Inr (Some (g\<lparr>currentPair := Some (l, r),
                                         correctId := Some (cid stronger),
                                         phase := inRound\<rparr>))))))"

text \<open>
  \<open>while (attempts < 40) { ... }\<close> followed by \<open>gameState.phase = 'error'\<close>.
  \<open>rnd k\<close> supplies the draws of the pass that starts with \<open>attempts = k\<close>.
\<close>

function roundLoop ::
    "groups \<Rightarrow> (string \<times> string) list \<Rightarrow> (nat \<Rightarrow> nat \<Rightarrow> nat) \<Rightarrow> nat \<Rightarrow> gameState
     \<Rightarrow> js_error + gameState" where
  "roundLoop groups cands rnd attempts g =
     (if attempts < 40 then
        (case attemptRound groups cands (rnd attempts) g of
           Inl e \<Rightarrow> Inl e
         | Inr (Some g') \<Rightarrow> Inr g'
         | Inr None \<Rightarrow> roundLoop groups cands rnd (attempts + 1) g)
      else Inr (g\<lparr>phase := error\<rparr>))"
  by pat_completeness auto
termination
  by (relation "measure (\<lambda>(groups, cands, rnd, attempts, g). 40 - attempts)") auto

declare roundLoop.simps [simp del]

text \<open>
  startNewRound up to the choice of candidate pairs, which is the only place where
  the two copies of the engine differ.
\<close>

definition startNewRoundFrom ::
    "(settings \<Rightarrow> string list \<Rightarrow> (string \<times> string) list)
     \<Rightarrow> settings \<Rightarrow> character list \<Rightarrow> (nat \<Rightarrow> nat \<Rightarrow> nat) \<Rightarrow> gameState
     \<Rightarrow> js_error + gameState" where
  "startNewRoundFrom collect s allChars rnd g =
     (let groups = buildFilteredGroups s allChars;
          tiers = filter (\<lambda>key. length (case groupsGet groups key of
                                            None \<Rightarrow> [] | Some cs \<Rightarrow> cs) > 0)
                         (map fst groups)
      in if length tiers < 2 then Inr (g\<lparr>phase := error\<rparr>)
         else (let cands = collect s tiers
               in if veryHardMode s \<and> length cands = 0 then Inr (g\<lparr>phase := error\<rparr>)
                  else roundLoop groups cands rnd 0 g))"

text \<open>startNewRound of src/js/gameLogic.js.\<close>

definition startNewRound ::
    "settings \<Rightarrow> character list \<Rightarrow> (nat \<Rightarrow> nat \<Rightarrow> nat) \<Rightarrow> gameState \<Rightarrow> js_error + gameState" where
  "startNewRound = startNewRoundFrom candidatePairs"

text \<open>startNewRound of src/unnamed/part_004.\<close>

definition startNewRound_p4 ::
    "settings \<Rightarrow> character list \<Rightarrow> (nat \<Rightarrow> nat \<Rightarrow> nat) \<Rightarrow> gameState \<Rightarrow> js_error + gameState" where
  "startNewRound_p4 = startNewRoundFrom candidatePairs_p4"

text \<open>
  What handleChoice returns: \<open>{ valid: false }\<close>, or the object with \<open>valid: true\<close>
  and the fields \<open>correct\<close>, \<open>selectedId\<close>, \<open>correctId\<close>, \<open>streak\<close>, \<open>phase\<close>.
\<close>

datatype choiceResult =
  NotValid
  | Resolved (res_correct: bool) (res_selectedId: string) (res_correctId: "string option")
      (res_streak: int) (res_phase: phase)

text \<open>
  handleChoice(selectedId), the same in both copies. The imported recordRound is the
  parameter \<open>record\<close>, acting on whatever the stats module keeps (\<open>'st\<close>), so that the
  calls it receives can be observed as well as their effect.
\<close>

definition handleChoiceWith ::
    "(bool \<Rightarrow> int \<Rightarrow> 'st \<Rightarrow> 'st) \<Rightarrow> string \<Rightarrow> gameState \<times> 'st
     \<Rightarrow> choiceResult \<times> gameState \<times> 'st" where
  "handleChoiceWith record selectedId gs =
     (let g = fst gs; st = snd gs
      in if phase g \<noteq> inRound \<or> currentPair g = None then (NotValid, g, st)
         else (case currentPair g of
                 None \<Rightarrow> (NotValid, g, st)
               | Some (left, right) \<Rightarrow>
                   (let cId = correctId g;
                        selected = (if cid left = selectedId then Some left
                                    else if cid right = selectedId then Some right
                                    else None)
                    in case selected of
                         None \<Rightarrow> (NotValid, g, st)
                       | Some sel \<Rightarrow>
                           (let g = g\<lparr>usedCharacterKeys :=
                                        insert (getCharacterKey left) (usedCharacterKeys g)\<rparr>;
                                g = g\<lparr>usedCharacterKeys :=
                                        insert (getCharacterKey right) (usedCharacterKeys g)\<rparr>;
                                correct = (Some (cid sel) = cId)
                            in if correct then
                                 (let g = g\<lparr>streak := streak g + 1\<rparr>;
                                      g = g\<lparr>phase := afterCorrect\<rparr>;
                                      st = record True (streak g) st
                                  in (Resolved correct selectedId cId (streak g) (phase g),
                                      g, st))
                               else
                                 (let st = record False (streak g) st;
                                      g = g\<lparr>phase := afterWrong\<rparr>;
                                      g = g\<lparr>streak := 0\<rparr>
                                  in (Resolved correct selectedId cId (streak g) (phase g),
                                      g, st))))))"

text \<open>handleChoice with the stats module's recordRound.\<close>

definition handleChoice ::
    "string \<Rightarrow> gameState \<times> stats \<Rightarrow> choiceResult \<times> gameState \<times> stats" where
  "handleChoice = handleChoiceWith recordRound"

text \<open>A stand-in for recordRound that only writes down the arguments of each call.\<close>

definition logCall :: "bool \<Rightarrow> int \<Rightarrow> (bool \<times> int) list \<Rightarrow> (bool \<times> int) list" where
  "logCall correct streakAfterRound calls = calls @ [(correct, streakAfterRound)]"

text \<open>
  restartGame() of the two copies: the five assignments (\<open>resetGame\<close>), then
  startNewRound.
\<close>

definition resetGame :: "gameState \<Rightarrow> gameState" where
  "resetGame g =
     g\<lparr>phase := inRound, currentPair := None, correctId := None, streak := 0,
       usedCharacterKeys := {}\<rparr>"

definition restartGame ::
    "settings \<Rightarrow> character list \<Rightarrow> (nat \<Rightarrow> nat \<Rightarrow> nat) \<Rightarrow> gameState \<Rightarrow> js_error + gameState" where
  "restartGame s allChars rnd g = startNewRound s allChars rnd (resetGame g)"

definition restartGame_p4 ::
    "settings \<Rightarrow> character list \<Rightarrow> (nat \<Rightarrow> nat \<Rightarrow> nat) \<Rightarrow> gameState \<Rightarrow> js_error + gameState" where
  "restartGame_p4 s allChars rnd g = startNewRound_p4 s allChars rnd (resetGame g)"

section \<open>gameLogicOdd.js (Odd-One-Out engine)\<close>

record oddGameState = runState +
  options :: "character list"
  oddId :: "string option"

definition initOddGameState :: oddGameState where
  "initOddGameState =
     \<lparr>phase = inRound, streak = 0, usedCharacterKeys = {}, options = [], oddId = None\<rparr>"

text \<open>buildFilteredPoolForOdd of src/js/gameLogicOdd.js: the three filters.\<close>

definition buildFilteredPoolForOdd ::
    "settings \<Rightarrow> character list \<Rightarrow> oddGameState \<Rightarrow> character list" where
  "buildFilteredPoolForOdd s allChars g =
     (let pool = allChars;
          pool = (if veryHardMode s
                  then filter (\<lambda>c. highestTier c \<noteq> Some ''Tier 0'') pool else pool);
          pool = (if customMode s \<and> length (customSeries s) > 0
                  then filter (\<lambda>c. origin c \<in> set (customSeries s)) pool else pool);
          pool = filter (\<lambda>c. getCharacterKey c \<notin> usedCharacterKeys g) pool
      in pool)"

text \<open>
  The \<open>dedupedByKey\<close> map of src/unnamed/part_002: the first character of every key,
  in insertion order.
\<close>

definition dedupeByKey :: "character list \<Rightarrow> character list" where
  "dedupeByKey pool =
     map snd
       (foldl (\<lambda>dedupedByKey c.
                 let key = getCharacterKey c
                 in if key \<in> set (map fst dedupedByKey) then dedupedByKey
                    else dedupedByKey @ [(key, c)])
              [] pool)"

text \<open>buildFilteredPoolForOdd of src/unnamed/part_002: the three filters, then the dedupe.\<close>

definition buildFilteredPoolForOdd_p2 ::
    "settings \<Rightarrow> character list \<Rightarrow> oddGameState \<Rightarrow> character list" where
  "buildFilteredPoolForOdd_p2 s allChars g =
     dedupeByKey (buildFilteredPoolForOdd s allChars g)"

text \<open>\<open>groups.get(tier) || []\<close>\<close>

definition groupOrEmpty :: "groups \<Rightarrow> string \<Rightarrow> character list" where
  "groupOrEmpty groups tier = (case groupsGet groups tier of None \<Rightarrow> [] | Some cs \<Rightarrow> cs)"

definition candidateMajorTiers :: "groups \<Rightarrow> string list \<Rightarrow> string list" where
  "candidateMajorTiers groups tierKeys =
     filter (\<lambda>tier.
               let arr = groupOrEmpty groups tier
               in if length arr < 3 then False
                  else list_ex (\<lambda>otherTier.
                                  if otherTier = tier then False
                                  else length (groupOrEmpty groups otherTier) \<ge> 1)
                               tierKeys)
            tierKeys"

definition otherTiers :: "groups \<Rightarrow> string list \<Rightarrow> string \<Rightarrow> string list" where
  "otherTiers groups tierKeys majorityTier =
     filter (\<lambda>tier. tier \<noteq> majorityTier \<and> length (groupOrEmpty groups tier) > 0) tierKeys"

text \<open>
  pickRandomDistinct(arr, count). The loop pushes \<open>copy[idx]\<close> and then removes that
  position with \<open>copy.splice(idx, 1)\<close>; \<open>rnd i\<close> is the random number of pass \<open>i\<close>.
  The picked array holds \<open>undefined\<close> (\<open>None\<close>) where the read was past the end.
\<close>

fun pickLoop :: "(nat \<Rightarrow> nat) \<Rightarrow> nat \<Rightarrow> 'a list \<Rightarrow> 'a option list" where
  "pickLoop rnd 0 copy = []"
| "pickLoop rnd (Suc n) copy =
     (let idx = randomIndex (rnd 0) (length copy)
      in arrayGet copy idx
         # pickLoop (\<lambda>i. rnd (Suc i)) n (take idx copy @ drop (Suc idx) copy))"

definition pickRandomDistinct :: "'a list \<Rightarrow> nat \<Rightarrow> (nat \<Rightarrow> nat) \<Rightarrow> 'a option list option" where
  "pickRandomDistinct arr cnt rnd =
     (if length arr < cnt then None else Some (pickLoop rnd cnt arr))"

text \<open>
  shuffleArray(arr): \<open>for (i = a.length - 1; i > 0; i--)\<close> swaps \<open>a[i]\<close> with \<open>a[j]\<close>,
  \<open>j = Math.floor(Math.random() * (i + 1))\<close>. Both indices are below the length.
\<close>

fun shuffleLoop :: "(nat \<Rightarrow> nat) \<Rightarrow> nat \<Rightarrow> 'a list \<Rightarrow> 'a list" where
  "shuffleLoop rnd 0 a = a"
| "shuffleLoop rnd (Suc k) a =
     (let i = Suc k;
          j = randomIndex (rnd 0) (i + 1)
      in shuffleLoop (\<lambda>n. rnd (Suc n)) k (a[i := a ! j, j := a ! i]))"

definition shuffleArray :: "(nat \<Rightarrow> nat) \<Rightarrow> 'a list \<Rightarrow> 'a list" where
  "shuffleArray rnd arr = shuffleLoop rnd (length arr - 1) arr"

text \<open>
  The \<open>uniqueOptions\<close> loop of src/unnamed/part_002: an option whose key was seen
  before is dropped.
\<close>

definition uniqueOptions :: "character list \<Rightarrow> character list" where
  "uniqueOptions opts =
     snd (foldl (\<lambda>(seenKeys, uniq) c.
                   let key = getCharacterKey c
                   in if key \<in> seenKeys then (seenKeys, uniq)
                      else (insert key seenKeys, uniq @ [c]))
                ({}, []) opts)"

text \<open>
  startNewOddRound of src/js/gameLogicOdd.js. \<open>rnd 0\<close> picks the majority tier,
  \<open>rnd 1..3\<close> the three majority characters, \<open>rnd 4\<close> the odd tier, \<open>rnd 5\<close> the odd
  character, \<open>rnd 6..8\<close> shuffle. The arrays are carried with their possible
  \<open>undefined\<close> entries up to the commit. No entry can be \<open>undefined\<close> there, since every
  read happens right after a length check (lemma \<open>pickLoop_defined\<close> and the guards on
  \<open>oddGroup\<close>); the model gives that impossible case the TypeError of \<open>oddChar.id\<close>.
\<close>

definition startNewOddRound ::
    "settings \<Rightarrow> character list \<Rightarrow> (nat \<Rightarrow> nat) \<Rightarrow> oddGameState \<Rightarrow> js_error + oddGameState" where
  "startNewOddRound s allChars rnd g =
     (let pool = buildFilteredPoolForOdd s allChars g
      in if length pool < 4 then Inr (g\<lparr>phase := error\<rparr>)
         else
     (let groups = groupByTier pool;
          tierKeys = map fst groups
      in if length tierKeys < 2 then Inr (g\<lparr>phase := error\<rparr>)
         else
     (let cands = candidateMajorTiers groups tierKeys
      in if length cands = 0 then Inr (g\<lparr>phase := error\<rparr>)
         else
     (case arrayGet cands (randomIndex (rnd 0) (length cands)) of
        None \<Rightarrow> Inl TypeError
      | Some majorityTier \<Rightarrow>
     (case groupsGet groups majorityTier of
        None \<Rightarrow> Inl TypeError
      | Some majorityGroup \<Rightarrow>
          if length majorityGroup < 3 then Inr (g\<lparr>phase := error\<rparr>)
          else
     (case pickRandomDistinct majorityGroup 3 (\<lambda>i. rnd (1 + i)) of
        None \<Rightarrow> Inr (g\<lparr>phase := error\<rparr>)
      | Some majorityChars \<Rightarrow>
          if length majorityChars < 3 then Inr (g\<lparr>phase := error\<rparr>)
          else
     (let others = otherTiers groups tierKeys majorityTier
      in if length others = 0 then Inr (g\<lparr>phase := error\<rparr>)
         else
     (let oddGroup = (case arrayGet others (randomIndex (rnd 4) (length others)) of
                        None \<Rightarrow> []
                      | Some oddTier \<Rightarrow> groupOrEmpty groups oddTier)
      in if length oddGroup = 0 then Inr (g\<lparr>phase := error\<rparr>)
         else
     (let oddChar = arrayGet oddGroup (randomIndex (rnd 5) (length oddGroup));
          opts = shuffleArray (\<lambda>i. rnd (6 + i)) (majorityChars @ [oddChar])
      in case (those opts, oddChar) of
           (Some opts', Some oddC) \<Rightarrow>
             Inr (g\<lparr>options := opts', oddId := Some (cid oddC), phase := inRound\<rparr>)
         | _ \<Rightarrow> Inl TypeError)))))))))"

text \<open>
  startNewOddRound of src/unnamed/part_002: the deduplicated pool,
  \<open>!majorityGroup\<close> as an error phase, and the \<open>uniqueOptions\<close> guard before the
  commit. getCharacterKey raises the TypeError on an \<open>undefined\<close> option.
\<close>

definition startNewOddRound_p2 ::
    "settings \<Rightarrow> character list \<Rightarrow> (nat \<Rightarrow> nat) \<Rightarrow> oddGameState \<Rightarrow> js_error + oddGameState" where
  "startNewOddRound_p2 s allChars rnd g =
     (let pool = buildFilteredPoolForOdd_p2 s allChars g
      in if length pool < 4 then Inr (g\<lparr>phase := error\<rparr>)
         else
     (let groups = groupByTier pool;
          tierKeys = map fst groups
      in if length tierKeys < 2 then Inr (g\<lparr>phase := error\<rparr>)
         else
     (let cands = candidateMajorTiers groups tierKeys
      in if length cands = 0 then Inr (g\<lparr>phase := error\<rparr>)
         else
     (case (case arrayGet cands (randomIndex (rnd 0) (length cands)) of
              None \<Rightarrow> None
            | Some majorityTier \<Rightarrow>
                map_option (Pair majorityTier) (groupsGet groups majorityTier)) of
        None \<Rightarrow> Inr (g\<lparr>phase := error\<rparr>)
      | Some (majorityTier, majorityGroup) \<Rightarrow>
          if length majorityGroup < 3 then Inr (g\<lparr>phase := error\<rparr>)
          else
     (case pickRandomDistinct majorityGroup 3 (\<lambda>i. rnd (1 + i)) of
        None \<Rightarrow> Inr (g\<lparr>phase := error\<rparr>)
      | Some majorityChars \<Rightarrow>
          if length majorityChars < 3 then Inr (g\<lparr>phase := error\<rparr>)
          else
     (let others = otherTiers groups tierKeys majorityTier
      in if length others = 0 then Inr (g\<lparr>phase := error\<rparr>)
         else
     (let oddGroup = (case arrayGet others (randomIndex (rnd 4) (length others)) of
                        None \<Rightarrow> []
                      | Some oddTier \<Rightarrow> groupOrEmpty groups oddTier)
      in if length oddGroup = 0 then Inr (g\<lparr>phase := error\<rparr>)
         else
     (let oddChar = arrayGet oddGroup (randomIndex (rnd 5) (length oddGroup));
          opts = shuffleArray (\<lambda>i. rnd (6 + i)) (majorityChars @ [oddChar])
      in case (those opts, oddChar) of
           (Some opts', Some oddC) \<Rightarrow>
             (let uniq = uniqueOptions opts'
              in if length uniq < 4 then Inr (g\<lparr>phase := error\<rparr>)
                 else Inr (g\<lparr>options := uniq, oddId := Some (cid oddC), phase := inRound\<rparr>))
         | _ \<Rightarrow> Inl TypeError))))))))"

text \<open>
  What handleOddChoice returns: \<open>{ valid: false, message }\<close>, or the object with
  \<open>valid: true\<close> and \<open>correct\<close>, \<open>selectedId\<close>, \<open>oddId\<close>, \<open>options\<close>, \<open>streak\<close>,
  \<open>phase\<close>.
\<close>

datatype oddChoiceResult =
  OddNotValid string
  | OddResolved (odd_correct: bool) (odd_selectedId: string) (odd_oddId: "string option")
      (odd_options: "character list") (odd_streak: int) (odd_phase: phase)

text \<open>handleOddChoice(selectedId), the same in both copies; \<open>record\<close> as in handleChoiceWith.\<close>

definition handleOddChoiceWith ::
    "(bool \<Rightarrow> int \<Rightarrow> 'st \<Rightarrow> 'st) \<Rightarrow> string \<Rightarrow> oddGameState \<times> 'st
     \<Rightarrow> oddChoiceResult \<times> oddGameState \<times> 'st" where
  "handleOddChoiceWith record selectedId gs =
     (let g = fst gs; st = snd gs
      in if phase g \<noteq> inRound \<or> length (options g) \<noteq> 4
         then (OddNotValid ''Not ready for selection.'', g, st)
         else (case find (\<lambda>c. cid c = selectedId) (options g) of
                 None \<Rightarrow> (OddNotValid ''Unknown character selected.'', g, st)
               | Some selected \<Rightarrow>
                   (let correct = (Some selectedId = oddId g);
                        g = foldl (\<lambda>g c. g\<lparr>usedCharacterKeys :=
                                              insert (getCharacterKey c) (usedCharacterKeys g)\<rparr>)
                                  g (options g)
                    in if correct then
                         (let g = g\<lparr>streak := streak g + 1\<rparr>;
                              g = g\<lparr>phase := afterCorrect\<rparr>;
                              st = record True (streak g) st
                          in (OddResolved correct selectedId (oddId g) (options g)
                                (streak g) (phase g), g, st))
                       else
                         (let st = record False (streak g) st;
                              g = g\<lparr>phase := afterWrong\<rparr>;
                              g = g\<lparr>streak := 0\<rparr>
                          in (OddResolved correct selectedId (oddId g) (options g)
                                (streak g) (phase g), g, st)))))"

definition handleOddChoice ::
    "string \<Rightarrow> oddGameState \<times> stats \<Rightarrow> oddChoiceResult \<times> oddGameState \<times> stats" where
  "handleOddChoice = handleOddChoiceWith recordRound"

text \<open>restartOddGame() of the two copies: the five assignments, then startNewOddRound.\<close>

definition resetOddGame :: "oddGameState \<Rightarrow> oddGameState" where
  "resetOddGame g =
     g\<lparr>phase := inRound, options := [], oddId := None, streak := 0,
       usedCharacterKeys := {}\<rparr>"

definition restartOddGame ::
    "settings \<Rightarrow> character list \<Rightarrow> (nat \<Rightarrow> nat) \<Rightarrow> oddGameState \<Rightarrow> js_error + oddGameState" where
  "restartOddGame s allChars rnd g = startNewOddRound s allChars rnd (resetOddGame g)"

definition restartOddGame_p2 ::
    "settings \<Rightarrow> character list \<Rightarrow> (nat \<Rightarrow> nat) \<Rightarrow> oddGameState \<Rightarrow> js_error + oddGameState" where
  "restartOddGame_p2 s allChars rnd g = startNewOddRound_p2 s allChars rnd (resetOddGame g)"

section \<open>Runs of an engine\<close>

text \<open>
  The calls the presentation layer makes on an engine, with the settings in force at
  the call and the random numbers the call draws.
\<close>

datatype 'd engineOp =
  StartNewRound settings 'd
  | HandleChoice string
  | RestartGame settings 'd

fun isRestart :: "'d engineOp \<Rightarrow> bool" where
  "isRestart (RestartGame s rnd) = True"
| "isRestart (StartNewRound s rnd) = False"
| "isRestart (HandleChoice sel) = False"

text \<open>
  What a call did to the round: committed a new one, resolved the current one, or
  neither. \<open>'r\<close> is the round's set of characters (the pair, or the options).
\<close>

datatype 'r roundEvent = RoundCommitted 'r | RoundResolved 'r | NoRound

fun runOps :: "('op \<Rightarrow> 'state \<Rightarrow> 'ev \<times> 'state) \<Rightarrow> 'op list \<Rightarrow> 'state \<Rightarrow> 'ev list" where
  "runOps step [] \<sigma> = []"
| "runOps step (op # ops) \<sigma> = fst (step op \<sigma>) # runOps step ops (snd (step op \<sigma>))"

text \<open>
  startNewRound has committed a round exactly when it returns with the phase inRound:
  every other path through it sets the phase to error.
\<close>

definition committedPair :: "gameState \<Rightarrow> (character \<times> character) roundEvent" where
  "committedPair g =
     (if phase g = inRound
      then (case currentPair g of None \<Rightarrow> NoRound | Some p \<Rightarrow> RoundCommitted p)
      else NoRound)"

text \<open>
  One call on the Classic engine; \<open>start\<close> is the copy of startNewRound in use. An
  exception leaves the state as it was when raised: untouched in startNewRound, reset
  in restartGame.
\<close>

fun stepGame ::
    "(settings \<Rightarrow> character list \<Rightarrow> (nat \<Rightarrow> nat \<Rightarrow> nat) \<Rightarrow> gameState \<Rightarrow> js_error + gameState)
     \<Rightarrow> character list \<Rightarrow> (nat \<Rightarrow> nat \<Rightarrow> nat) engineOp \<Rightarrow> gameState \<times> stats
     \<Rightarrow> (character \<times> character) roundEvent \<times> gameState \<times> stats" where
  "stepGame start allChars (StartNewRound s rnd) (g, st) =
     (case start s allChars rnd g of
        Inl e \<Rightarrow> (NoRound, g, st)
      | Inr g' \<Rightarrow> (committedPair g', g', st))"
| "stepGame start allChars (RestartGame s rnd) (g, st) =
     (case start s allChars rnd (resetGame g) of
        Inl e \<Rightarrow> (NoRound, resetGame g, st)
      | Inr g' \<Rightarrow> (committedPair g', g', st))"
| "stepGame start allChars (HandleChoice sel) (g, st) =
     (case handleChoice sel (g, st) of
        (NotValid, gs') \<Rightarrow> (NoRound, gs')
      | (Resolved c sid cI k ph, gs') \<Rightarrow>
          ((case currentPair g of None \<Rightarrow> NoRound | Some p \<Rightarrow> RoundResolved p), gs'))"

definition runGame ::
    "(settings \<Rightarrow> character list \<Rightarrow> (nat \<Rightarrow> nat \<Rightarrow> nat) \<Rightarrow> gameState \<Rightarrow> js_error + gameState)
     \<Rightarrow> character list \<Rightarrow> (nat \<Rightarrow> nat \<Rightarrow> nat) engineOp list \<Rightarrow> gameState \<times> stats
     \<Rightarrow> (character \<times> character) roundEvent list" where
  "runGame start allChars ops gs = runOps (stepGame start allChars) ops gs"

definition committedOptions :: "oddGameState \<Rightarrow> character list roundEvent" where
  "committedOptions g = (if phase g = inRound then RoundCommitted (options g) else NoRound)"

text \<open>One call on the Odd-One-Out engine.\<close>

fun stepOdd ::
    "(settings \<Rightarrow> character list \<Rightarrow> (nat \<Rightarrow> nat) \<Rightarrow> oddGameState \<Rightarrow> js_error + oddGameState)
     \<Rightarrow> character list \<Rightarrow> (nat \<Rightarrow> nat) engineOp \<Rightarrow> oddGameState \<times> stats
     \<Rightarrow> character list roundEvent \<times> oddGameState \<times> stats" where
  "stepOdd start allChars (StartNewRound s rnd) (g, st) =
     (case start s allChars rnd g of
        Inl e \<Rightarrow> (NoRound, g, st)
      | Inr g' \<Rightarrow> (committedOptions g', g', st))"
| "stepOdd start allChars (RestartGame s rnd) (g, st) =
     (case start s allChars rnd (resetOddGame g) of
        Inl e \<Rightarrow> (NoRound, resetOddGame g, st)
      | Inr g' \<Rightarrow> (committedOptions g', g', st))"
| "stepOdd start allChars (HandleChoice sel) (g, st) =
     (case handleOddChoice sel (g, st) of
        (OddNotValid msg, gs') \<Rightarrow> (NoRound, gs')
      | (OddResolved c sid oI opts k ph, gs') \<Rightarrow> (RoundResolved (options g), gs'))"

definition runOdd ::
    "(settings \<Rightarrow> character list \<Rightarrow> (nat \<Rightarrow> nat) \<Rightarrow> oddGameState \<Rightarrow> js_error + oddGameState)
     \<Rightarrow> character list \<Rightarrow> (nat \<Rightarrow> nat) engineOp list \<Rightarrow> oddGameState \<times> stats
     \<Rightarrow> character list roundEvent list" where
  "runOdd start allChars ops gs = runOps (stepOdd start allChars) ops gs"

text \<open>
  Call \<open>i\<close> resolved the round \<open>r1\<close>, a later call \<open>j\<close> committed the round \<open>r2\<close>, and
  none of the calls after \<open>i\<close> up to and including \<open>j\<close> is a restart: both rounds belong
  to one run.
\<close>

definition resolvedThenCommitted ::
    "'d engineOp list \<Rightarrow> 'r roundEvent list \<Rightarrow> nat \<Rightarrow> nat \<Rightarrow> 'r \<Rightarrow> 'r \<Rightarrow> bool" where
  "resolvedThenCommitted ops events i j r1 r2 \<longleftrightarrow>
     i < j \<and> j < length ops
     \<and> list_all (\<lambda>op. \<not> isRestart op) (take (j - i) (drop (Suc i) ops))
     \<and> events ! i = RoundResolved r1 \<and> events ! j = RoundCommitted r2"

text \<open>The identity keys of a round's characters.\<close>

definition pairKeys :: "character \<times> character \<Rightarrow> string set" where
  "pairKeys p = {getCharacterKey (fst p), getCharacterKey (snd p)}"

definition optionKeys :: "character list \<Rightarrow> string set" where
  "optionKeys opts = getCharacterKey ` set opts"

section \<open>Example data\<close>

text \<open>Concrete characters used to evaluate the definitions.\<close>

definition mkChar :: "string \<Rightarrow> string \<Rightarrow> string \<Rightarrow> string \<Rightarrow> character" where
  "mkChar i n orig t =
     \<lparr>cid = i, name = n, origin = orig, highestTier = Some t,
      rawName = Some n, rawOrigin = Some orig\<rparr>"

definition hardSettings :: settings where
  "hardSettings = \<lparr>veryHardMode = True, customMode = False, customSeries = []\<rparr>"

definition normalSettings :: settings where
  "normalSettings = \<lparr>veryHardMode = False, customMode = False, customSeries = []\<rparr>"

definition zeroStats :: stats where
  "zeroStats = \<lparr>totalRounds = 0, totalCorrectRounds = 0, bestStreak = 0\<rparr>"

text \<open>Every draw is 0: each random pick takes the first element.\<close>

definition zeroDraws :: "nat \<Rightarrow> nat \<Rightarrow> nat" where
  "zeroDraws k j = 0"

definition zeroDrawsOdd :: "nat \<Rightarrow> nat" where
  "zeroDrawsOdd k = 0"

definition ann :: character where "ann = mkChar ''a'' ''Ann'' ''S'' ''High 1-A''"
definition bob :: character where "bob = mkChar ''b'' ''Bob'' ''S'' ''1-B''"
definition cat :: character where "cat = mkChar ''c'' ''Cat'' ''S'' ''High 1-B''"

definition pia :: character where "pia = mkChar ''p1'' ''Pia'' ''S'' ''1-A''"
definition pia2 :: character where "pia2 = mkChar ''p2'' ''Pia'' ''S'' ''1-A''"
definition quin :: character where "quin = mkChar ''q'' ''Quin'' ''S'' ''1-A''"
definition rex :: character where "rex = mkChar ''r'' ''Rex'' ''S'' ''1-A''"
definition uma :: character where "uma = mkChar ''u'' ''Uma'' ''S'' ''1-B''"
definition val :: character where "val = mkChar ''v'' ''Val'' ''S'' ''1-B''"

text \<open>A Classic round in progress, two correct answers into the run.\<close>

definition midRun :: gameState where
  "midRun =
     \<lparr>phase = inRound, streak = 2, usedCharacterKeys = {},
      currentPair = Some (ann, bob), correctId = Some ''a''\<rparr>"

text \<open>An Odd-One-Out round in progress, two correct answers into the run.\<close>

definition midRunOdd :: oddGameState where
  "midRunOdd =
     \<lparr>phase = inRound, streak = 2, usedCharacterKeys = {},
      options = [quin, uma, rex, pia], oddId = Some ''u''\<rparr>"

definition dan :: character where "dan = mkChar ''d'' ''Dan'' ''S'' ''1-C''"

text \<open>Pass \<open>k\<close> of the retry loop draws \<open>k\<close> three times.\<close>

definition countDraws :: "nat \<Rightarrow> nat \<Rightarrow> nat" where
  "countDraws k j = k"

section \<open>Tier ladder\<close>

lemma indexOf_ge: "- 1 \<le> indexOf xs x"
  by (induction xs) (auto simp: Let_def)

lemma indexOf_nth:
  "0 \<le> indexOf xs x \<Longrightarrow> nat (indexOf xs x) < length xs \<and> xs ! nat (indexOf xs x) = x"
proof (induction xs)
  case Nil
  then show ?case by simp
next
  case (Cons y ys)
  show ?case
  proof (cases "y = x")
    case True
    then show ?thesis by simp
  next
    case False
    with Cons.prems have pos: "0 \<le> indexOf ys x"
      by (simp add: Let_def split: if_splits)
    with Cons.IH have "nat (indexOf ys x) < length ys" "ys ! nat (indexOf ys x) = x"
      by simp_all
    with False pos show ?thesis
      by (simp add: Let_def nat_add_distrib)
  qed
qed

lemma getTierIndex_same_label:
  assumes "getTierIndex t = getTierIndex u" and "0 \<le> getTierIndex t"
  shows "t = u"
proof -
  from assms obtain a b where t: "t = Some a" and u: "u = Some b"
    by (cases t; cases u) (auto simp: getTierIndex_def)
  from assms t u have eq: "indexOf TIER_ORDER a = indexOf TIER_ORDER b"
    and pos: "0 \<le> indexOf TIER_ORDER a" "0 \<le> indexOf TIER_ORDER b"
    by (simp_all add: getTierIndex_def)
  have "TIER_ORDER ! nat (indexOf TIER_ORDER a) = a"
    using indexOf_nth[OF pos(1)] by blast
  moreover have "TIER_ORDER ! nat (indexOf TIER_ORDER b) = b"
    using indexOf_nth[OF pos(2)] by blast
  ultimately have "a = b"
    using eq by metis
  with t u show ?thesis by simp
qed

lemma getTierIndex_Tier0: "getTierIndex (Some ''Tier 0'') = 0"
  by (simp add: getTierIndex_def TIER_ORDER_def)

lemma getTierIndex_1A: "getTierIndex (Some ''1-A'') = 2"
  by (simp add: getTierIndex_def TIER_ORDER_def)

text \<open>
  C5. getStrongerCharacter is a function of its two arguments. When both labels are
  ranked it returns one of the two arguments; it returns null exactly when one of the
  labels is unranked; and a "Tier 0" character beats a "1-A" character on either side.
\<close>

theorem getStrongerCharacter_determinism:
  "(0 \<le> getTierIndex (highestTier a) \<and> 0 \<le> getTierIndex (highestTier b)
      \<longrightarrow> getStrongerCharacter a b = Some a \<or> getStrongerCharacter a b = Some b)
   \<and> (getStrongerCharacter a b = None
      \<longleftrightarrow> getTierIndex (highestTier a) < 0 \<or> getTierIndex (highestTier b) < 0)
   \<and> (highestTier a = Some ''Tier 0'' \<and> highestTier b = Some ''1-A''
      \<longrightarrow> getStrongerCharacter a b = Some a \<and> getStrongerCharacter b a = Some a)"
  by (auto simp: getStrongerCharacter_def Let_def getTierIndex_Tier0 getTierIndex_1A)

theorem getStrongerCharacter_determinism_witness:
  "getStrongerCharacter (mkChar ''z'' ''Zeno'' ''S'' ''Tier 0'') (mkChar ''a'' ''Ann'' ''S'' ''1-A'')
     = Some (mkChar ''z'' ''Zeno'' ''S'' ''Tier 0'')
   \<and> getStrongerCharacter (mkChar ''a'' ''Ann'' ''S'' ''1-A'') (mkChar ''z'' ''Zeno'' ''S'' ''Tier 0'')
     = Some (mkChar ''z'' ''Zeno'' ''S'' ''Tier 0'')
   \<and> getStrongerCharacter (mkChar ''z'' ''Zeno'' ''S'' ''Tier 0'') (mkChar ''a'' ''Ann'' ''S'' ''1-A'')
     \<noteq> None"
  using getStrongerCharacter_determinism
    [of "mkChar ''z'' ''Zeno'' ''S'' ''Tier 0''" "mkChar ''a'' ''Ann'' ''S'' ''1-A''"]
  by (simp add: mkChar_def getTierIndex_Tier0 getTierIndex_1A)

text \<open>
  C10. On a tie (both labels have the same non-negative ladder index)
  getStrongerCharacter returns its second argument.
\<close>

theorem getStrongerCharacter_tie:
  "getTierIndex (highestTier a) = getTierIndex (highestTier b)
   \<Longrightarrow> 0 \<le> getTierIndex (highestTier a)
   \<Longrightarrow> getStrongerCharacter a b = Some b"
  by (simp add: getStrongerCharacter_def Let_def)

theorem getStrongerCharacter_tie_witness:
  "getStrongerCharacter (mkChar ''a'' ''Ann'' ''S'' ''1-A'') (mkChar ''b'' ''Bob'' ''S'' ''1-A'')
     = Some (mkChar ''b'' ''Bob'' ''S'' ''1-A'')"
  using getStrongerCharacter_tie
    [of "mkChar ''a'' ''Ann'' ''S'' ''1-A''" "mkChar ''b'' ''Bob'' ''S'' ''1-A''"]
  by (simp add: mkChar_def getTierIndex_1A)

section \<open>Stats tracker\<close>

lemma jsAddOne_exact: "- (2 ^ 53) \<le> x \<Longrightarrow> x < 2 ^ 53 \<Longrightarrow> jsAddOne x = x + 1"
  by (simp add: jsAddOne_def)

lemma recordRound_totalRounds [simp]:
  "totalRounds (recordRound c s st) = jsAddOne (totalRounds st)"
  by (simp add: recordRound_def Let_def)

lemma recordRound_totalCorrectRounds [simp]:
  "totalCorrectRounds (recordRound c s st)
     = (if c then jsAddOne (totalCorrectRounds st) else totalCorrectRounds st)"
  by (simp add: recordRound_def Let_def)

lemma recordRound_bestStreak [simp]:
  "bestStreak (recordRound c s st) = (if c then max (bestStreak st) s else bestStreak st)"
  by (simp add: recordRound_def Let_def max_def)

lemma Max_insert_max:
  fixes a b :: int
  assumes "finite S"
  shows "Max (insert (max a b) S) = Max (insert a (insert b S))"
proof (cases "S = {}")
  case True
  then show ?thesis by simp
next
  case False
  with assms have "Max (insert (max a b) S) = max (max a b) (Max S)"
    by simp
  moreover from False assms have "Max (insert a (insert b S)) = max a (max b (Max S))"
    by simp
  ultimately show ?thesis by (simp add: max.assoc)
qed

lemma recordRounds_bestStreak:
  "bestStreak (recordRounds calls st)
     = Max (insert (bestStreak st) (snd ` {p \<in> set calls. fst p}))"
proof (induction calls arbitrary: st)
  case Nil
  then show ?case by simp
next
  case (Cons p calls)
  obtain c s where p: "p = (c, s)" by (cases p)
  let ?S = "snd ` {q \<in> set calls. fst q}"
  have fin: "finite ?S" by simp
  show ?case
  proof (cases c)
    case True
    then have set_eq: "snd ` {q \<in> set (p # calls). fst q} = insert s ?S"
      using p by force
    have "bestStreak (recordRounds (p # calls) st)
            = Max (insert (max (bestStreak st) s) ?S)"
      using p True Cons.IH by simp
    also have "\<dots> = Max (insert (bestStreak st) (insert s ?S))"
      using fin by (rule Max_insert_max)
    finally show ?thesis using set_eq by simp
  next
    case False
    then have "snd ` {q \<in> set (p # calls). fst q} = ?S"
      using p by force
    with p False Cons.IH show ?thesis by simp
  qed
qed

text \<open>
  C7, as the code has it. A call of recordRound adds exactly 1 to totalRounds when the
  counter is an integer from -2^53 up to 2^53 - 1, and under the same bound it adds
  exactly 1 to totalCorrectRounds iff the round was correct (an incorrect round never
  changes it). It never lowers bestStreak, and after any sequence of calls bestStreak
  is the larger of its initial value and the largest streakAfterRound passed on a
  correct call.
\<close>

theorem recordRound_counters:
  "(- (2 ^ 53) \<le> totalRounds st \<and> totalRounds st < 2 ^ 53
      \<longrightarrow> totalRounds (recordRound c s st) = totalRounds st + 1)
   \<and> (- (2 ^ 53) \<le> totalCorrectRounds st \<and> totalCorrectRounds st < 2 ^ 53
      \<longrightarrow> totalCorrectRounds (recordRound c s st)
            = totalCorrectRounds st + (if c then 1 else 0))
   \<and> (\<not> c \<longrightarrow> totalCorrectRounds (recordRound c s st) = totalCorrectRounds st)
   \<and> bestStreak st \<le> bestStreak (recordRound c s st)
   \<and> bestStreak (recordRounds calls st)
       = Max (insert (bestStreak st) (snd ` {p \<in> set calls. fst p}))"
  using recordRounds_bestStreak[of calls st] by (simp add: jsAddOne_exact)

theorem recordRound_counters_witness:
  "bestStreak (recordRounds [(True, 2), (False, 9), (True, 1)]
      \<lparr>totalRounds = 0, totalCorrectRounds = 0, bestStreak = 0\<rparr>) = 2
   \<and> totalRounds (recordRound True 9
      \<lparr>totalRounds = 0, totalCorrectRounds = 0, bestStreak = 0\<rparr>) = 1
   \<and> totalCorrectRounds (recordRound True 9
      \<lparr>totalRounds = 0, totalCorrectRounds = 0, bestStreak = 0\<rparr>) = 1"
  using recordRound_counters
    [where c = True and s = 9
       and st = "\<lparr>totalRounds = 0, totalCorrectRounds = 0, bestStreak = 0\<rparr>"
       and calls = "[(True, 2), (False, 9), (True, 1)]"]
  by simp

text \<open>
  C7 as stated fails once a counter has reached 2^53 = 9007199254740992, a value
  loadStats can take from the storage: the double sum 2^53 + 1 rounds back to 2^53, so
  a correct round leaves totalRounds and totalCorrectRounds where they were.
\<close>

theorem recordRound_counters_counterexample:
  "totalRounds (recordRound True 1
      \<lparr>totalRounds = 9007199254740992, totalCorrectRounds = 9007199254740992,
       bestStreak = 0\<rparr>) = 9007199254740992
   \<and> totalCorrectRounds (recordRound True 1
      \<lparr>totalRounds = 9007199254740992, totalCorrectRounds = 9007199254740992,
       bestStreak = 0\<rparr>) = 9007199254740992"
  by (simp add: jsAddOne_def)

section \<open>Classic engine: what a committed round is made of\<close>

lemma arrayGet_mem: "arrayGet xs i = Some x \<Longrightarrow> x \<in> set xs"
  by (auto simp: arrayGet_def split: if_splits)

lemma groupsPush_members:
  "(k, cs) \<in> set (groupsPush grp key c) \<Longrightarrow> x \<in> set cs
   \<Longrightarrow> (x = c \<and> k = key) \<or> (\<exists>cs'. (k, cs') \<in> set grp \<and> x \<in> set cs')"
  by (induction grp key c rule: groupsPush.induct) (auto split: if_splits)

lemma foldl_group_members:
  "(k, cs) \<in> set (foldl (\<lambda>groups c.
              case highestTier c of
                None \<Rightarrow> groups
              | Some key \<Rightarrow> if key = [] then groups else groupsPush groups key c) acc pool)
   \<Longrightarrow> x \<in> set cs
   \<Longrightarrow> (\<exists>cs'. (k, cs') \<in> set acc \<and> x \<in> set cs')
       \<or> (x \<in> set pool \<and> highestTier x = Some k)"
proof (induction pool arbitrary: acc)
  case Nil
  then show ?case by auto
next
  case (Cons c pool)
  let ?acc' = "case highestTier c of None \<Rightarrow> acc
               | Some key \<Rightarrow> if key = [] then acc else groupsPush acc key c"
  from Cons.prems have "(k, cs) \<in> set (foldl (\<lambda>groups c.
              case highestTier c of
                None \<Rightarrow> groups
              | Some key \<Rightarrow> if key = [] then groups else groupsPush groups key c) ?acc' pool)"
    by simp
  from Cons.IH[OF this Cons.prems(2)]
  consider cs' where "(k, cs') \<in> set ?acc'" "x \<in> set cs'"
    | "x \<in> set pool" "highestTier x = Some k"
    by blast
  then show ?case
  proof cases
    case 1
    then show ?thesis
      by (auto split: option.splits if_splits dest: groupsPush_members)
  next
    case 2
    then show ?thesis by simp
  qed
qed

lemma groupByTier_members:
  "(k, cs) \<in> set (groupByTier pool) \<Longrightarrow> x \<in> set cs
   \<Longrightarrow> x \<in> set pool \<and> highestTier x = Some k"
  unfolding groupByTier_def by (drule (1) foldl_group_members) simp

lemma buildFilteredGroups_members:
  assumes "groupsGet (buildFilteredGroups s allChars) k = Some cs" and "x \<in> set cs"
  shows "x \<in> set allChars \<and> highestTier x = Some k"
proof -
  from assms(1) have "(k, cs) \<in> set (buildFilteredGroups s allChars)"
    by (simp add: groupsGet_def map_of_SomeD)
  then obtain pool where "(k, cs) \<in> set (groupByTier pool)" and "set pool \<subseteq> set allChars"
    by (auto simp: buildFilteredGroups_def Let_def split: if_splits)
  with assms(2) show ?thesis
    by (auto dest: groupByTier_members)
qed

lemma pickCharacterFromGroup_Some:
  "pickCharacterFromGroup g r grp = Some c
   \<Longrightarrow> \<exists>cs. grp = Some cs \<and> c \<in> set cs \<and> getCharacterKey c \<notin> usedCharacterKeys g"
  by (auto simp: pickCharacterFromGroup_def Let_def
           split: option.splits if_splits dest!: arrayGet_mem)

lemma attemptRound_commit:
  assumes "attemptRound groups cands rnd g = Inr (Some g')"
  shows "\<exists>tA tB csA csB l r stronger.
           (tA, tB) \<in> set cands
           \<and> groupsGet groups tA = Some csA \<and> l \<in> set csA
           \<and> groupsGet groups tB = Some csB \<and> r \<in> set csB
           \<and> getCharacterKey l \<notin> usedCharacterKeys g
           \<and> getCharacterKey r \<notin> usedCharacterKeys g
           \<and> getStrongerCharacter l r = Some stronger
           \<and> g' = g\<lparr>currentPair := Some (l, r), correctId := Some (cid stronger),
                     phase := inRound\<rparr>"
proof -
  from assms obtain tA tB where
    c: "arrayGet cands (randomIndex (rnd 0) (length cands)) = Some (tA, tB)"
    by (auto simp: attemptRound_def split: option.splits)
  from assms c obtain l r stronger where
    l: "pickCharacterFromGroup g (rnd 1) (groupsGet groups tA) = Some l" and
    r: "pickCharacterFromGroup g (rnd 2) (groupsGet groups tB) = Some r" and
    s: "getStrongerCharacter l r = Some stronger" and
    g': "g' = g\<lparr>currentPair := Some (l, r), correctId := Some (cid stronger),
                 phase := inRound\<rparr>"
    by (auto simp: attemptRound_def Let_def split: option.splits)
  from pickCharacterFromGroup_Some[OF l] pickCharacterFromGroup_Some[OF r]
       arrayGet_mem[OF c] s g'
  show ?thesis by blast
qed

lemma roundLoop_result:
  "roundLoop groups cands rnd attempts g = Inr g'
   \<Longrightarrow> g' = g\<lparr>phase := error\<rparr>
       \<or> (\<exists>k. attemptRound groups cands (rnd k) g = Inr (Some g'))"
proof (induction groups cands rnd attempts g rule: roundLoop.induct)
  case (1 groups cands rnd attempts g)
  note unfold = roundLoop.simps[of groups cands rnd attempts g]
  show ?case
  proof (cases "attempts < 40")
    case True
    show ?thesis
    proof (cases "attemptRound groups cands (rnd attempts) g")
      case (Inl e)
      with True "1.prems" show ?thesis by (simp add: unfold)
    next
      case (Inr res)
      show ?thesis
      proof (cases res)
        case None
        with True Inr "1.prems" "1.IH" show ?thesis by (simp add: unfold)
      next
        case (Some g'')
        with True Inr "1.prems" show ?thesis by (auto simp: unfold)
      qed
    qed
  next
    case False
    with "1.prems" show ?thesis by (simp add: unfold)
  qed
qed

lemma startNewRoundFrom_result:
  assumes "startNewRoundFrom collect s allChars rnd g = Inr g'"
  shows "g' = g\<lparr>phase := error\<rparr>
         \<or> (\<exists>k tiers. attemptRound (buildFilteredGroups s allChars) (collect s tiers) (rnd k) g
                = Inr (Some g'))"
  using assms
  by (auto simp: startNewRoundFrom_def Let_def split: if_splits dest!: roundLoop_result)

lemma startNewRoundFrom_commit:
  assumes "startNewRoundFrom collect s allChars rnd g = Inr g'" and "phase g' = inRound"
  shows "\<exists>tiers tA tB l r stronger.
           (tA, tB) \<in> set (collect s tiers)
           \<and> l \<in> set allChars \<and> highestTier l = Some tA
           \<and> r \<in> set allChars \<and> highestTier r = Some tB
           \<and> getCharacterKey l \<notin> usedCharacterKeys g
           \<and> getCharacterKey r \<notin> usedCharacterKeys g
           \<and> getStrongerCharacter l r = Some stronger
           \<and> g' = g\<lparr>currentPair := Some (l, r), correctId := Some (cid stronger),
                     phase := inRound\<rparr>"
proof -
  from startNewRoundFrom_result[OF assms(1)] assms(2)
  obtain k tiers where
    "attemptRound (buildFilteredGroups s allChars) (collect s tiers) (rnd k) g = Inr (Some g')"
    by auto
  from attemptRound_commit[OF this] show ?thesis
    by (metis buildFilteredGroups_members)
qed

lemma candidatePairs_veryHard:
  "veryHardMode s \<Longrightarrow> (tA, tB) \<in> set (candidatePairs s tiers) \<Longrightarrow> 3 \<le> distance tA tB"
  by (simp add: candidatePairs_def)

lemma candidatePairs_p4_veryHard:
  "veryHardMode s \<Longrightarrow> (tA, tB) \<in> set (candidatePairs_p4 s tiers) \<Longrightarrow> distance tA tB = 3"
  by (simp add: candidatePairs_p4_def)

text \<open>
  C1, as the code has it. A round that startNewRound commits under veryHardMode pairs
  two characters whose tier indices are at least 3 apart in src/js/gameLogic.js
  (\<open>distance >= 3\<close>), and exactly 3 apart in the copy src/unnamed/part_004
  (\<open>distance === 3\<close>). The call commits exactly when it leaves the phase inRound, and
  this holds from every state \<open>g\<close>, reachable or not.
\<close>

theorem veryHard_distance:
  assumes "veryHardMode s" and "phase g' = inRound"
  shows "(startNewRound s allChars rnd g = Inr g'
            \<longrightarrow> (\<exists>l r. currentPair g' = Some (l, r)
                   \<and> 3 \<le> \<bar>getTierIndex (highestTier l) - getTierIndex (highestTier r)\<bar>))
       \<and> (startNewRound_p4 s allChars rnd g = Inr g'
            \<longrightarrow> (\<exists>l r. currentPair g' = Some (l, r)
                   \<and> \<bar>getTierIndex (highestTier l) - getTierIndex (highestTier r)\<bar> = 3))"
proof (intro conjI impI)
  assume "startNewRound s allChars rnd g = Inr g'"
  then have "startNewRoundFrom candidatePairs s allChars rnd g = Inr g'"
    by (simp add: startNewRound_def)
  from startNewRoundFrom_commit[OF this assms(2)]
  obtain tiers tA tB l r where "(tA, tB) \<in> set (candidatePairs s tiers)"
    "highestTier l = Some tA" "highestTier r = Some tB" "currentPair g' = Some (l, r)"
    by auto
  with candidatePairs_veryHard[OF assms(1), of tA tB tiers]
  show "\<exists>l r. currentPair g' = Some (l, r)
          \<and> 3 \<le> \<bar>getTierIndex (highestTier l) - getTierIndex (highestTier r)\<bar>"
    by (auto simp: distance_def)
next
  assume "startNewRound_p4 s allChars rnd g = Inr g'"
  then have "startNewRoundFrom candidatePairs_p4 s allChars rnd g = Inr g'"
    by (simp add: startNewRound_p4_def)
  from startNewRoundFrom_commit[OF this assms(2)]
  obtain tiers tA tB l r where "(tA, tB) \<in> set (candidatePairs_p4 s tiers)"
    "highestTier l = Some tA" "highestTier r = Some tB" "currentPair g' = Some (l, r)"
    by auto
  with candidatePairs_p4_veryHard[OF assms(1), of tA tB tiers]
  show "\<exists>l r. currentPair g' = Some (l, r)
          \<and> \<bar>getTierIndex (highestTier l) - getTierIndex (highestTier r)\<bar> = 3"
    by (auto simp: distance_def)
qed

lemma commit_ann_cat:
  "startNewRound hardSettings [ann, cat] zeroDraws initGameState
     = Inr (initGameState\<lparr>currentPair := Some (ann, cat), correctId := Some ''a'',
                          phase := inRound\<rparr>)"
  "startNewRound_p4 hardSettings [ann, cat] zeroDraws initGameState
     = Inr (initGameState\<lparr>currentPair := Some (ann, cat), correctId := Some ''a'',
                          phase := inRound\<rparr>)"
  by code_simp+

theorem veryHard_distance_witness:
  "veryHardMode hardSettings
   \<and> startNewRound_p4 hardSettings [ann, cat] zeroDraws initGameState
       = Inr (initGameState\<lparr>currentPair := Some (ann, cat), correctId := Some ''a'',
                            phase := inRound\<rparr>)
   \<and> \<bar>getTierIndex (highestTier ann) - getTierIndex (highestTier cat)\<bar> = 3
   \<and> 3 \<le> \<bar>getTierIndex (highestTier ann) - getTierIndex (highestTier cat)\<bar>"
  using veryHard_distance
    [where s = hardSettings and allChars = "[ann, cat]" and rnd = zeroDraws
       and g = initGameState
       and g' = "initGameState\<lparr>currentPair := Some (ann, cat), correctId := Some ''a'',
                                phase := inRound\<rparr>"]
    commit_ann_cat
  by (simp add: hardSettings_def)

text \<open>
  C1 as stated fails on src/js/gameLogic.js: under veryHardMode, with one character at
  "High 1-A" (index 1) and one at "1-B" (index 5), startNewRound commits the pair,
  whose distance is 4.
\<close>

theorem veryHard_exact_distance_counterexample:
  "veryHardMode hardSettings
   \<and> startNewRound hardSettings [ann, bob] zeroDraws initGameState
       = Inr (initGameState\<lparr>currentPair := Some (ann, bob), correctId := Some ''a'',
                            phase := inRound\<rparr>)
   \<and> \<bar>getTierIndex (highestTier ann) - getTierIndex (highestTier bob)\<bar> = 4"
  by code_simp

section \<open>Resolving a choice\<close>

lemma handleChoiceWith_invalid:
  "phase g \<noteq> inRound \<or> currentPair g = None
     \<or> (\<exists>l r. currentPair g = Some (l, r) \<and> cid l \<noteq> sel \<and> cid r \<noteq> sel)
   \<Longrightarrow> handleChoiceWith rec sel (g, st) = (NotValid, g, st)"
  by (auto simp: handleChoiceWith_def)

lemma handleChoiceWith_valid:
  assumes "phase g = inRound" and "currentPair g = Some (l, r)"
    and "cid l = sel \<or> cid r = sel"
  shows "handleChoiceWith rec sel (g, st) =
     (if Some sel = correctId g
      then (Resolved True sel (correctId g) (streak g + 1) afterCorrect,
            g\<lparr>usedCharacterKeys :=
                 insert (getCharacterKey r) (insert (getCharacterKey l) (usedCharacterKeys g)),
               streak := streak g + 1, phase := afterCorrect\<rparr>,
            rec True (streak g + 1) st)
      else (Resolved False sel (correctId g) 0 afterWrong,
            g\<lparr>usedCharacterKeys :=
                 insert (getCharacterKey r) (insert (getCharacterKey l) (usedCharacterKeys g)),
               phase := afterWrong, streak := 0\<rparr>,
            rec False (streak g) st))"
  using assms by (auto simp: handleChoiceWith_def Let_def)

lemma handleChoiceWith_cases:
  obtains (invalid) "handleChoiceWith rec sel (g, st) = (NotValid, g, st)"
  | (valid) l r where "phase g = inRound" "currentPair g = Some (l, r)"
      "cid l = sel \<or> cid r = sel"
proof (cases "phase g = inRound \<and> (\<exists>l r. currentPair g = Some (l, r) \<and> (cid l = sel \<or> cid r = sel))")
  case True
  then obtain l r where "phase g = inRound" "currentPair g = Some (l, r)"
      "cid l = sel \<or> cid r = sel" by blast
  then show ?thesis by (rule valid)
next
  case False
  then have "phase g \<noteq> inRound \<or> currentPair g = None
     \<or> (\<exists>l r. currentPair g = Some (l, r) \<and> cid l \<noteq> sel \<and> cid r \<noteq> sel)"
    by (cases "currentPair g") auto
  then have "handleChoiceWith rec sel (g, st) = (NotValid, g, st)"
    by (rule handleChoiceWith_invalid)
  then show ?thesis by (rule invalid)
qed

lemma mark_used:
  "foldl (\<lambda>g c. g\<lparr>usedCharacterKeys := insert (getCharacterKey c) (usedCharacterKeys g)\<rparr>)
         g cs
   = (g :: oddGameState)\<lparr>usedCharacterKeys := usedCharacterKeys g \<union> getCharacterKey ` set cs\<rparr>"
  by (induction cs arbitrary: g) auto

lemma find_cid_None: "find (\<lambda>c. cid c = sel) cs = None \<longleftrightarrow> sel \<notin> cid ` set cs"
  by (auto simp: find_None_iff)

lemma handleOddChoiceWith_invalid:
  assumes "phase g \<noteq> inRound \<or> length (options g) \<noteq> 4 \<or> sel \<notin> cid ` set (options g)"
  shows "\<exists>msg. handleOddChoiceWith rec sel (g, st) = (OddNotValid msg, g, st)"
proof (cases "phase g \<noteq> inRound \<or> length (options g) \<noteq> 4")
  case True
  then show ?thesis by (auto simp: handleOddChoiceWith_def)
next
  case False
  with assms have "find (\<lambda>c. cid c = sel) (options g) = None"
    by (simp only: find_cid_None) simp
  with False show ?thesis by (simp add: handleOddChoiceWith_def)
qed

lemma handleOddChoiceWith_valid:
  assumes "phase g = inRound" and "length (options g) = 4" and "sel \<in> cid ` set (options g)"
  shows "handleOddChoiceWith rec sel (g, st) =
     (if Some sel = oddId g
      then (OddResolved True sel (oddId g) (options g) (streak g + 1) afterCorrect,
            g\<lparr>usedCharacterKeys := usedCharacterKeys g \<union> getCharacterKey ` set (options g),
               streak := streak g + 1, phase := afterCorrect\<rparr>,
            rec True (streak g + 1) st)
      else (OddResolved False sel (oddId g) (options g) 0 afterWrong,
            g\<lparr>usedCharacterKeys := usedCharacterKeys g \<union> getCharacterKey ` set (options g),
               phase := afterWrong, streak := 0\<rparr>,
            rec False (streak g) st))"
proof -
  from assms(3) have "find (\<lambda>c. cid c = sel) (options g) \<noteq> None"
    by (simp only: find_cid_None) simp
  then obtain c where "find (\<lambda>c. cid c = sel) (options g) = Some c"
    by blast
  with assms(1,2) show ?thesis
    by (simp add: handleOddChoiceWith_def Let_def mark_used)
qed

lemma handleOddChoiceWith_cases:
  obtains (invalid) msg where "handleOddChoiceWith rec sel (g, st) = (OddNotValid msg, g, st)"
  | (valid) "phase g = inRound" "length (options g) = 4" "sel \<in> cid ` set (options g)"
proof (cases "phase g \<noteq> inRound \<or> length (options g) \<noteq> 4 \<or> sel \<notin> cid ` set (options g)")
  case True
  from handleOddChoiceWith_invalid[OF this, of rec st] obtain msg where
    "handleOddChoiceWith rec sel (g, st) = (OddNotValid msg, g, st)" by blast
  then show ?thesis by (rule invalid)
next
  case False
  then show ?thesis using valid by blast
qed

text \<open>
  C8. handleChoice is a no-op returning \<open>valid: false\<close> when the phase is not inRound,
  when there is no current pair, or when the id matches neither side: the engine state
  and the stats come back unchanged. handleOddChoice does the same when the phase is
  not inRound, when options does not have exactly 4 entries, or when the id is not
  among the options.
\<close>

theorem invalid_choice_noop:
  "((phase g \<noteq> inRound \<or> currentPair g = None
       \<or> (\<exists>l r. currentPair g = Some (l, r) \<and> cid l \<noteq> sel \<and> cid r \<noteq> sel))
      \<longrightarrow> handleChoice sel (g, st) = (NotValid, g, st))
   \<and> ((phase og \<noteq> inRound \<or> length (options og) \<noteq> 4 \<or> sel \<notin> cid ` set (options og))
      \<longrightarrow> (\<exists>msg. handleOddChoice sel (og, st) = (OddNotValid msg, og, st)))"
  unfolding handleChoice_def handleOddChoice_def
  using handleChoiceWith_invalid[of g sel recordRound st]
        handleOddChoiceWith_invalid[of og sel recordRound st]
  by blast

theorem invalid_choice_noop_witness:
  "handleChoice ''zz'' (midRun, zeroStats) = (NotValid, midRun, zeroStats)
   \<and> (\<exists>msg. handleOddChoice ''zz'' (midRunOdd, zeroStats) = (OddNotValid msg, midRunOdd, zeroStats))"
proof -
  have "currentPair midRun = Some (ann, bob) \<and> cid ann \<noteq> ''zz'' \<and> cid bob \<noteq> ''zz''"
    by (simp add: midRun_def ann_def bob_def mkChar_def)
  moreover have "''zz'' \<notin> cid ` set (options midRunOdd)"
    by (simp add: midRunOdd_def quin_def uma_def rex_def pia_def mkChar_def)
  ultimately show ?thesis
    using invalid_choice_noop[of midRun "''zz''" zeroStats midRunOdd] by blast
qed

text \<open>
  C6. When a choice is resolved, \<open>correct\<close> says whether the chosen id is the stored
  correct (odd) id; a correct answer makes the streak, in the engine state and in the
  returned object, the prior streak plus 1, and an incorrect answer makes both 0.
\<close>

theorem streak_after_choice:
  "(handleChoice sel (g, st) = (Resolved c sid cI k ph, g', st')
      \<longrightarrow> c = (Some sel = correctId g)
          \<and> (if c then streak g' = streak g + 1 \<and> k = streak g + 1
              else streak g' = 0 \<and> k = 0))
   \<and> (handleOddChoice sel (og, st) = (OddResolved c sid oI opts k ph, og', st')
      \<longrightarrow> c = (Some sel = oddId og)
          \<and> (if c then streak og' = streak og + 1 \<and> k = streak og + 1
              else streak og' = 0 \<and> k = 0))"
proof (rule conjI; rule impI)
  assume a: "handleChoice sel (g, st) = (Resolved c sid cI k ph, g', st')"
  show "c = (Some sel = correctId g)
          \<and> (if c then streak g' = streak g + 1 \<and> k = streak g + 1
              else streak g' = 0 \<and> k = 0)"
  proof (cases rule: handleChoiceWith_cases[of recordRound sel g st])
    case invalid
    with a show ?thesis by (simp add: handleChoice_def)
  next
    case (valid l r)
    from handleChoiceWith_valid[OF valid, of recordRound st] a show ?thesis
      by (auto simp: handleChoice_def split: if_splits)
  qed
next
  assume a: "handleOddChoice sel (og, st) = (OddResolved c sid oI opts k ph, og', st')"
  show "c = (Some sel = oddId og)
          \<and> (if c then streak og' = streak og + 1 \<and> k = streak og + 1
              else streak og' = 0 \<and> k = 0)"
  proof (cases rule: handleOddChoiceWith_cases[of recordRound sel og st])
    case (invalid msg)
    with a show ?thesis by (simp add: handleOddChoice_def)
  next
    case valid
    from handleOddChoiceWith_valid[OF valid, of recordRound st] a show ?thesis
      by (auto simp: handleOddChoice_def split: if_splits)
  qed
qed

lemma resolve_midRun:
  "handleChoice ''a'' (midRun, zeroStats)
     = (Resolved True ''a'' (Some ''a'') 3 afterCorrect,
        midRun\<lparr>usedCharacterKeys := {''Bob::S'', ''Ann::S''}, streak := 3,
                phase := afterCorrect\<rparr>,
        \<lparr>totalRounds = 1, totalCorrectRounds = 1, bestStreak = 3\<rparr>)"
  "handleOddChoice ''q'' (midRunOdd, zeroStats)
     = (OddResolved False ''q'' (Some ''u'') [quin, uma, rex, pia] 0 afterWrong,
        midRunOdd\<lparr>usedCharacterKeys := {''Quin::S'', ''Uma::S'', ''Rex::S'', ''Pia::S''},
                   phase := afterWrong, streak := 0\<rparr>,
        \<lparr>totalRounds = 1, totalCorrectRounds = 0, bestStreak = 0\<rparr>)"
  by code_simp+

theorem streak_after_choice_witness:
  "streak midRun = 2
   \<and> handleChoice ''a'' (midRun, zeroStats)
     = (Resolved True ''a'' (Some ''a'') 3 afterCorrect,
        midRun\<lparr>usedCharacterKeys := {''Bob::S'', ''Ann::S''}, streak := 3,
                phase := afterCorrect\<rparr>,
        \<lparr>totalRounds = 1, totalCorrectRounds = 1, bestStreak = 3\<rparr>)
   \<and> handleOddChoice ''q'' (midRunOdd, zeroStats)
     = (OddResolved False ''q'' (Some ''u'') [quin, uma, rex, pia] 0 afterWrong,
        midRunOdd\<lparr>usedCharacterKeys := {''Quin::S'', ''Uma::S'', ''Rex::S'', ''Pia::S''},
                   phase := afterWrong, streak := 0\<rparr>,
        \<lparr>totalRounds = 1, totalCorrectRounds = 0, bestStreak = 0\<rparr>)"
  using streak_after_choice
    [where sel = "''a''" and g = midRun and st = zeroStats and c = True and sid = "''a''"
       and cI = "Some ''a''" and k = 3 and ph = afterCorrect
       and g' = "midRun\<lparr>usedCharacterKeys := {''Bob::S'', ''Ann::S''}, streak := 3,
                         phase := afterCorrect\<rparr>"
       and st' = "\<lparr>totalRounds = 1, totalCorrectRounds = 1, bestStreak = 3\<rparr>"
       and og = midRunOdd]
    resolve_midRun
  by (simp add: midRun_def)

text \<open>
  What a resolved choice passes to recordRound, whatever recordRound is: on a correct
  answer \<open>true\<close> and the prior streak plus 1, which is the streak after the update; on
  an incorrect answer \<open>false\<close> and the prior streak, because the call comes before
  \<open>streak = 0\<close>. The streak after the round is then 0.
\<close>

lemma recordRound_call:
  "(handleChoiceWith rec sel (g, st) = (Resolved c sid cI k ph, g', st')
      \<longrightarrow> st' = rec c (if c then streak g + 1 else streak g) st
          \<and> streak g' = (if c then streak g + 1 else 0))
   \<and> (handleOddChoiceWith rec sel (og, st) = (OddResolved c sid oI opts k ph, og', st')
      \<longrightarrow> st' = rec c (if c then streak og + 1 else streak og) st
          \<and> streak og' = (if c then streak og + 1 else 0))"
proof (rule conjI; rule impI)
  assume a: "handleChoiceWith rec sel (g, st) = (Resolved c sid cI k ph, g', st')"
  show "st' = rec c (if c then streak g + 1 else streak g) st
          \<and> streak g' = (if c then streak g + 1 else 0)"
  proof (cases rule: handleChoiceWith_cases[of rec sel g st])
    case invalid
    with a show ?thesis by simp
  next
    case (valid l r)
    from handleChoiceWith_valid[OF valid, of rec st] a show ?thesis
      by (auto split: if_splits)
  qed
next
  assume a: "handleOddChoiceWith rec sel (og, st) = (OddResolved c sid oI opts k ph, og', st')"
  show "st' = rec c (if c then streak og + 1 else streak og) st
          \<and> streak og' = (if c then streak og + 1 else 0)"
  proof (cases rule: handleOddChoiceWith_cases[of rec sel og st])
    case (invalid msg)
    with a show ?thesis by simp
  next
    case valid
    from handleOddChoiceWith_valid[OF valid, of rec st] a show ?thesis
      by (auto split: if_splits)
  qed
qed

text \<open>
  Since recordRound reads streakAfterRound only when the round was correct, the stats
  recorded by a resolved choice are those of the streak after the round all the same.
\<close>

lemma recorded_stats:
  "(handleChoice sel (g, st) = (Resolved c sid cI k ph, g', st')
      \<longrightarrow> st' = recordRound c (streak g') st)
   \<and> (handleOddChoice sel (og, st) = (OddResolved c sid oI opts k ph, og', st')
      \<longrightarrow> st' = recordRound c (streak og') st)"
  using recordRound_call[of recordRound sel g st c sid cI k ph g' st' og oI opts og']
  by (auto simp: handleChoice_def handleOddChoice_def recordRound_def Let_def)

text \<open>
  C4, as the code has it. When handleChoice or handleOddChoice resolves a round it
  calls recordRound once, whatever recordRound is: on a correct answer with \<open>true\<close>
  and the prior streak plus 1, the streak after the update; on an incorrect answer
  with \<open>false\<close> and the prior streak, the streak before the reset. With the stats
  module's recordRound the stats that result are those of the streak after the round
  in both cases.
\<close>

theorem recordRound_argument:
  "(handleChoiceWith rec sel (g, st) = (Resolved c sid cI k ph, g', st')
      \<longrightarrow> st' = rec c (if c then streak g + 1 else streak g) st
          \<and> streak g' = (if c then streak g + 1 else 0))
   \<and> (handleOddChoiceWith rec sel (og, st) = (OddResolved c sid oI opts k ph, og', st')
      \<longrightarrow> st' = rec c (if c then streak og + 1 else streak og) st
          \<and> streak og' = (if c then streak og + 1 else 0))
   \<and> (handleChoice sel (g, stats0) = (Resolved c sid cI k ph, g', stats1)
      \<longrightarrow> stats1 = recordRound c (streak g') stats0)
   \<and> (handleOddChoice sel (og, stats0) = (OddResolved c sid oI opts k ph, og', stats1)
      \<longrightarrow> stats1 = recordRound c (streak og') stats0)"
  using recordRound_call[of rec sel g st c sid cI k ph g' st' og oI opts og']
        recorded_stats[of sel g stats0 c sid cI k ph g' stats1 og oI opts og']
  by blast

lemma logged_midRun:
  "handleChoiceWith logCall ''a'' (midRun, [])
     = (Resolved True ''a'' (Some ''a'') 3 afterCorrect,
        midRun\<lparr>usedCharacterKeys := {''Bob::S'', ''Ann::S''}, streak := 3,
                phase := afterCorrect\<rparr>,
        [(True, 3)])"
  by code_simp

theorem recordRound_argument_witness:
  "streak midRun = 2
   \<and> handleChoiceWith logCall ''a'' (midRun, [])
     = (Resolved True ''a'' (Some ''a'') 3 afterCorrect,
        midRun\<lparr>usedCharacterKeys := {''Bob::S'', ''Ann::S''}, streak := 3,
                phase := afterCorrect\<rparr>,
        [(True, 3)])
   \<and> [(True, 3)] = logCall True 3 []"
  using recordRound_argument
    [where rec = logCall and sel = "''a''" and g = midRun and st = "[]" and c = True
       and sid = "''a''" and cI = "Some ''a''" and k = 3 and ph = afterCorrect
       and g' = "midRun\<lparr>usedCharacterKeys := {''Bob::S'', ''Ann::S''}, streak := 3,
                         phase := afterCorrect\<rparr>"
       and st' = "[(True, 3)]"]
    logged_midRun
  by (simp add: midRun_def logCall_def)

text \<open>
  C4 as stated fails on an incorrect answer. With a streak of 2, choosing the wrong
  card makes both engines call recordRound with \<open>(false, 2)\<close>: the streak before the
  reset, not the streak after the round, which is 0.
\<close>

theorem recordRound_argument_counterexample:
  "streak midRun = 2
   \<and> snd (snd (handleChoiceWith logCall ''b'' (midRun, []))) = [(False, 2)]
   \<and> streak (fst (snd (handleChoiceWith logCall ''b'' (midRun, [])))) = 0
   \<and> streak midRunOdd = 2
   \<and> snd (snd (handleOddChoiceWith logCall ''q'' (midRunOdd, []))) = [(False, 2)]
   \<and> streak (fst (snd (handleOddChoiceWith logCall ''q'' (midRunOdd, [])))) = 0"
  by code_simp

section \<open>Classic engine: a pool of two characters\<close>

lemma roundLoop_all_retry:
  "(\<And>k. attemptRound groups cands (rnd k) g = Inr None)
   \<Longrightarrow> roundLoop groups cands rnd attempts g = Inr (g\<lparr>phase := error\<rparr>)"
proof (induction groups cands rnd attempts g rule: roundLoop.induct)
  case (1 groups cands rnd attempts g)
  then show ?case
    by (simp add: roundLoop.simps[of groups cands rnd attempts g])
qed

lemma tierPairs_filter_subset:
  "set (candidatePairs s tiers) \<subseteq> set (tierPairs tiers)"
  "set (candidatePairs_p4 s tiers) \<subseteq> set (tierPairs tiers)"
  by (auto simp: candidatePairs_def candidatePairs_p4_def)

lemma startNewRoundFrom_two_groups:
  assumes "buildFilteredGroups s allChars = [(tA, [a]), (tB, [b])]" and "tA \<noteq> tB"
  shows "startNewRoundFrom collect s allChars rnd g =
           (if veryHardMode s \<and> collect s [tA, tB] = [] then Inr (g\<lparr>phase := error\<rparr>)
            else roundLoop [(tA, [a]), (tB, [b])] (collect s [tA, tB]) rnd 0 g)"
  using assms by (simp add: startNewRoundFrom_def groupsGet_def Let_def)

lemma attemptRound_two_groups_used:
  assumes sub: "set cands \<subseteq> {(tA, tB)}"
    and used: "getCharacterKey a \<in> usedCharacterKeys g"
  shows "attemptRound [(tA, [a]), (tB, [b])] cands rnd g = Inr None \<or> cands = []"
proof (cases "cands = []")
  case True
  then show ?thesis by simp
next
  case False
  then have "randomIndex (rnd 0) (length cands) < length cands"
    by (simp add: randomIndex_def)
  then obtain p where p: "arrayGet cands (randomIndex (rnd 0) (length cands)) = Some p"
    and "p \<in> set cands"
    by (auto simp: arrayGet_def)
  with sub have "p = (tA, tB)" by auto
  with p used show ?thesis
    by (simp add: attemptRound_def groupsGet_def pickCharacterFromGroup_def)
qed

lemma second_round_error:
  assumes groups: "buildFilteredGroups s allChars = [(tA, [a]), (tB, [b])]" and ne: "tA \<noteq> tB"
    and sub: "set (collect s [tA, tB]) \<subseteq> set (tierPairs [tA, tB])"
    and first: "startNewRoundFrom collect s allChars rnd1 g0 = Inr g1" "phase g1 = inRound"
    and choice: "handleChoiceWith rec sel (g1, st) = (Resolved c sid cI k ph, g2, st')"
  shows "startNewRoundFrom collect s allChars rnd2 g2 = Inr (g2\<lparr>phase := error\<rparr>)"
proof -
  let ?groups = "[(tA, [a]), (tB, [b])]"
  let ?cands = "collect s [tA, tB]"
  from sub have sub': "set ?cands \<subseteq> {(tA, tB)}" by simp
  from first have "roundLoop ?groups ?cands rnd1 0 g0 = Inr g1"
    by (auto simp: startNewRoundFrom_two_groups[OF groups ne] split: if_splits)
  from roundLoop_result[OF this] first(2) obtain k where
    "attemptRound ?groups ?cands (rnd1 k) g0 = Inr (Some g1)"
    by auto
  from attemptRound_commit[OF this] obtain x y csA l r where
    xy: "(x, y) \<in> set ?cands" and "groupsGet ?groups x = Some csA" "l \<in> set csA"
    and pair: "currentPair g1 = Some (l, r)"
    by auto
  from xy sub' have "x = tA" by auto
  with \<open>groupsGet ?groups x = Some csA\<close> \<open>l \<in> set csA\<close> have l: "l = a"
    by (auto simp: groupsGet_def)
  from xy have nonempty: "?cands \<noteq> []" by auto
  have used: "getCharacterKey a \<in> usedCharacterKeys g2"
  proof (cases rule: handleChoiceWith_cases[of rec sel g1 st])
    case invalid
    with choice show ?thesis by simp
  next
    case (valid l' r')
    from handleChoiceWith_valid[OF valid, of rec st] choice pair l valid(2) show ?thesis
      by (auto split: if_splits)
  qed
  have "attemptRound ?groups ?cands (rnd2 k) g2 = Inr None" for k
    using attemptRound_two_groups_used[OF sub' used, of b "rnd2 k"] nonempty by simp
  then have "roundLoop ?groups ?cands rnd2 0 g2 = Inr (g2\<lparr>phase := error\<rparr>)"
    by (rule roundLoop_all_retry)
  with nonempty show ?thesis
    by (simp add: startNewRoundFrom_two_groups[OF groups ne])
qed

text \<open>
  C9. The filtered pool of a Classic run groups into exactly two tiers with one
  character each. Once startNewRound has committed a round and handleChoice has resolved
  it (correctly or not), the next startNewRound, whatever it draws, returns normally and
  leaves the phase at error, with nothing else changed. Both copies of the engine.
\<close>

theorem two_character_pool_exhausted:
  assumes "buildFilteredGroups s allChars = [(tA, [a]), (tB, [b])]" and "tA \<noteq> tB"
    and "handleChoice sel (g1, st) = (Resolved c sid cI k ph, g2, st')"
    and "phase g1 = inRound"
  shows "(startNewRound s allChars rnd1 g0 = Inr g1
            \<longrightarrow> startNewRound s allChars rnd2 g2 = Inr (g2\<lparr>phase := error\<rparr>))
       \<and> (startNewRound_p4 s allChars rnd1 g0 = Inr g1
            \<longrightarrow> startNewRound_p4 s allChars rnd2 g2 = Inr (g2\<lparr>phase := error\<rparr>))"
proof (rule conjI; rule impI)
  note choice = assms(3)[unfolded handleChoice_def]
  {
    assume "startNewRound s allChars rnd1 g0 = Inr g1"
    then have "startNewRoundFrom candidatePairs s allChars rnd1 g0 = Inr g1"
      by (simp add: startNewRound_def)
    from second_round_error[OF assms(1,2) tierPairs_filter_subset(1) this assms(4) choice]
    show "startNewRound s allChars rnd2 g2 = Inr (g2\<lparr>phase := error\<rparr>)"
      by (simp add: startNewRound_def)
  }
  {
    assume "startNewRound_p4 s allChars rnd1 g0 = Inr g1"
    then have "startNewRoundFrom candidatePairs_p4 s allChars rnd1 g0 = Inr g1"
      by (simp add: startNewRound_p4_def)
    from second_round_error[OF assms(1,2) tierPairs_filter_subset(2) this assms(4) choice]
    show "startNewRound_p4 s allChars rnd2 g2 = Inr (g2\<lparr>phase := error\<rparr>)"
      by (simp add: startNewRound_p4_def)
  }
qed

lemma ann_bob_groups:
  "buildFilteredGroups normalSettings [ann, bob] = [(''High 1-A'', [ann]), (''1-B'', [bob])]"
  by code_simp

lemma ann_bob_first:
  "startNewRound normalSettings [ann, bob] zeroDraws initGameState
     = Inr (initGameState\<lparr>currentPair := Some (ann, bob), correctId := Some ''a'',
                          phase := inRound\<rparr>)"
  by code_simp

lemma ann_bob_choice:
  "handleChoice ''b'' (initGameState\<lparr>currentPair := Some (ann, bob), correctId := Some ''a'',
                          phase := inRound\<rparr>, zeroStats)
    = (Resolved False ''b'' (Some ''a'') 0 afterWrong,
       initGameState\<lparr>currentPair := Some (ann, bob), correctId := Some ''a'',
                     usedCharacterKeys := {''Bob::S'', ''Ann::S''}, phase := afterWrong\<rparr>,
       \<lparr>totalRounds = 1, totalCorrectRounds = 0, bestStreak = 0\<rparr>)"
  by code_simp

theorem two_character_pool_exhausted_witness:
  "startNewRound normalSettings [ann, bob] zeroDraws
     (initGameState\<lparr>currentPair := Some (ann, bob), correctId := Some ''a'',
                     usedCharacterKeys := {''Bob::S'', ''Ann::S''}, phase := afterWrong\<rparr>)
   = Inr (initGameState\<lparr>currentPair := Some (ann, bob), correctId := Some ''a'',
                     usedCharacterKeys := {''Bob::S'', ''Ann::S''}, phase := error\<rparr>)"
  using two_character_pool_exhausted[OF ann_bob_groups _ ann_bob_choice, of zeroDraws initGameState zeroDraws]
    ann_bob_first
  by (simp add: initGameState_def)

section \<open>Odd-One-Out engine: what a committed round is made of\<close>

lemma arrayGet_randomIndex:
  "xs \<noteq> [] \<Longrightarrow> \<exists>x. arrayGet xs (randomIndex r (length xs)) = Some x \<and> x \<in> set xs"
  by (simp add: arrayGet_def randomIndex_def)

lemma pickLoop_defined:
  "n \<le> length copy
   \<Longrightarrow> \<exists>xs. pickLoop rnd n copy = map Some xs \<and> length xs = n \<and> set xs \<subseteq> set copy"
proof (induction n arbitrary: rnd copy)
  case 0
  then show ?case by simp
next
  case (Suc n)
  let ?idx = "randomIndex (rnd 0) (length copy)"
  let ?rest = "take ?idx copy @ drop (Suc ?idx) copy"
  from Suc.prems have ne: "copy \<noteq> []" by auto
  then have idx: "?idx < length copy" by (simp add: randomIndex_def)
  then have len: "length ?rest = length copy - 1" by simp
  have sub: "set ?rest \<subseteq> set copy"
    using set_take_subset[of ?idx copy] set_drop_subset[of "Suc ?idx" copy] by auto
  from Suc.prems len have "n \<le> length ?rest" by simp
  from Suc.IH[OF this, of "\<lambda>i. rnd (Suc i)"] obtain xs where
    xs: "pickLoop (\<lambda>i. rnd (Suc i)) n ?rest = map Some xs" "length xs = n" "set xs \<subseteq> set ?rest"
    by blast
  from idx have "arrayGet copy ?idx = Some (copy ! ?idx)" "copy ! ?idx \<in> set copy"
    by (simp_all add: arrayGet_def)
  with xs sub have "pickLoop rnd (Suc n) copy = map Some ((copy ! ?idx) # xs)
      \<and> length ((copy ! ?idx) # xs) = Suc n \<and> set ((copy ! ?idx) # xs) \<subseteq> set copy"
    by (auto simp: Let_def)
  then show ?case by blast
qed

lemma pickRandomDistinct_Some:
  assumes "pickRandomDistinct arr n rnd = Some picked"
  shows "\<exists>xs. picked = map Some xs \<and> length xs = n \<and> set xs \<subseteq> set arr"
proof -
  from assms have "n \<le> length arr" and "picked = pickLoop rnd n arr"
    by (auto simp: pickRandomDistinct_def split: if_splits)
  with pickLoop_defined[of n arr rnd] show ?thesis by auto
qed

lemma shuffleLoop_mset:
  "k < length a \<Longrightarrow> mset (shuffleLoop rnd k a) = mset a"
proof (induction k arbitrary: rnd a)
  case 0
  then show ?case by simp
next
  case (Suc k)
  let ?j = "randomIndex (rnd 0) (Suc k + 1)"
  have "?j < Suc k + 1" by (simp add: randomIndex_def)
  with Suc.prems have j: "?j < length a" by simp
  let ?a' = "a[Suc k := a ! ?j, ?j := a ! Suc k]"
  have "mset ?a' = mset a"
    using mset_swap[OF j Suc.prems] by simp
  moreover from Suc.prems have "k < length ?a'" by simp
  from Suc.IH[OF this, of "\<lambda>n. rnd (Suc n)"]
  have "mset (shuffleLoop (\<lambda>n. rnd (Suc n)) k ?a') = mset ?a'" .
  ultimately show ?case by (simp add: Let_def)
qed

lemma shuffleArray_mset: "mset (shuffleArray rnd arr) = mset arr"
proof (cases "arr = []")
  case True
  then show ?thesis by (simp add: shuffleArray_def)
next
  case False
  then have "length arr - 1 < length arr" by (cases arr) simp_all
  then show ?thesis unfolding shuffleArray_def by (rule shuffleLoop_mset)
qed

lemma those_Some_map: "those xs = Some ys \<Longrightarrow> xs = map Some ys"
  by (induction xs arbitrary: ys) (auto split: option.splits)

lemma shuffled_options:
  assumes "those (shuffleArray rnd (map Some picked @ [Some oddC])) = Some opts"
  shows "mset opts = mset (picked @ [oddC])"
proof -
  let ?zs = "map Some picked @ [Some oddC]"
  from those_Some_map[OF assms] have "map the (map Some opts) = map the (shuffleArray rnd ?zs)"
    by simp
  then have "opts = map the (shuffleArray rnd ?zs)"
    by (simp add: comp_def)
  then have "mset opts = image_mset the (mset (shuffleArray rnd ?zs))"
    by simp
  also have "\<dots> = image_mset the (mset ?zs)"
    by (simp only: shuffleArray_mset)
  also have "\<dots> = mset (picked @ [oddC])"
    by (simp add: multiset.map_comp comp_def)
  finally show ?thesis .
qed


lemma otherTiers_ne: "t \<in> set (otherTiers groups tierKeys mt) \<Longrightarrow> t \<noteq> mt"
  by (simp add: otherTiers_def)

lemma odd_draw:
  assumes others: "others = otherTiers groups tierKeys mt"
    and grp: "oddGroup = (case arrayGet others (randomIndex r4 (length others)) of
                        None \<Rightarrow> []
                      | Some oddTier \<Rightarrow> groupOrEmpty groups oddTier)"
    and odd: "arrayGet oddGroup i = Some oddC"
  shows "\<exists>ot cs. ot \<noteq> mt \<and> groupsGet groups ot = Some cs \<and> oddC \<in> set cs"
proof -
  from odd have mem: "oddC \<in> set oddGroup" by (rule arrayGet_mem)
  with grp obtain ot where ot: "arrayGet others (randomIndex r4 (length others)) = Some ot"
    and og: "oddGroup = groupOrEmpty groups ot"
    by (auto split: option.splits)
  from arrayGet_mem[OF ot] others have "ot \<noteq> mt" by (simp add: otherTiers_ne)
  moreover from mem og obtain cs where "groupsGet groups ot = Some cs" "oddC \<in> set cs"
    by (auto simp: groupOrEmpty_def split: option.splits)
  ultimately show ?thesis by blast
qed

lemma startNewOddRound_result:
  assumes "startNewOddRound s allChars rnd g = Inr g'"
  shows "g' = g\<lparr>phase := error\<rparr>
     \<or> (\<exists>mt mg picked ot og oddC opts.
           groupsGet (groupByTier (buildFilteredPoolForOdd s allChars g)) mt = Some mg
         \<and> length picked = 3 \<and> set picked \<subseteq> set mg
         \<and> ot \<noteq> mt
         \<and> groupsGet (groupByTier (buildFilteredPoolForOdd s allChars g)) ot = Some og
         \<and> oddC \<in> set og
         \<and> mset opts = mset (picked @ [oddC])
         \<and> g' = g\<lparr>options := opts, oddId := Some (cid oddC), phase := inRound\<rparr>)"
proof (cases "g' = g\<lparr>phase := error\<rparr>")
  case True
  then show ?thesis by simp
next
  case False
  let ?groups = "groupByTier (buildFilteredPoolForOdd s allChars g)"
  let ?tierKeys = "map fst ?groups"
  let ?cands = "candidateMajorTiers ?groups ?tierKeys"
  from assms False obtain mt mg mc where
    mt: "arrayGet ?cands (randomIndex (rnd 0) (length ?cands)) = Some mt"
    and mg: "groupsGet ?groups mt = Some mg"
    and mc: "pickRandomDistinct mg 3 (\<lambda>i. rnd (1 + i)) = Some mc"
    by (auto simp: startNewOddRound_def Let_def split: if_splits option.splits)
  let ?others = "otherTiers ?groups ?tierKeys mt"
  let ?oddGroup = "case arrayGet ?others (randomIndex (rnd 4) (length ?others)) of
                        None \<Rightarrow> []
                      | Some oddTier \<Rightarrow> groupOrEmpty ?groups oddTier"
  let ?oddChar = "arrayGet ?oddGroup (randomIndex (rnd 5) (length ?oddGroup))"
  from assms False mt mg mc obtain opts oddC where
    odd: "?oddChar = Some oddC"
    and opts: "those (shuffleArray (\<lambda>i. rnd (6 + i)) (mc @ [?oddChar])) = Some opts"
    and g': "g' = g\<lparr>options := opts, oddId := Some (cid oddC), phase := inRound\<rparr>"
    by (auto simp: startNewOddRound_def Let_def split: if_splits option.splits)
  from pickRandomDistinct_Some[OF mc] obtain picked where
    picked: "mc = map Some picked" "length picked = 3" "set picked \<subseteq> set mg"
    by blast
  from opts odd picked(1) have "mset opts = mset (picked @ [oddC])"
    by (auto dest: shuffled_options)
  moreover from odd_draw[OF refl refl odd] obtain ot og where
    "ot \<noteq> mt" "groupsGet ?groups ot = Some og" "oddC \<in> set og"
    by blast
  ultimately show ?thesis using mg picked g' by blast
qed


lemma uniqueOptions_foldl:
  "\<exists>ys. snd (foldl (\<lambda>(seenKeys, uniq) c.
                   let key = getCharacterKey c
                   in if key \<in> seenKeys then (seenKeys, uniq)
                      else (insert key seenKeys, uniq @ [c]))
                (seen, acc) xs) = acc @ ys
        \<and> length ys \<le> length xs
        \<and> (length ys = length xs
             \<longrightarrow> ys = xs \<and> distinct (map getCharacterKey xs)
                 \<and> getCharacterKey ` set xs \<inter> seen = {})"
proof (induction xs arbitrary: seen acc)
  case Nil
  then show ?case by simp
next
  case (Cons c xs)
  show ?case
  proof (cases "getCharacterKey c \<in> seen")
    case True
    from Cons.IH[of seen acc] True show ?thesis
      by (auto simp: Let_def)
  next
    case False
    from Cons.IH[of "insert (getCharacterKey c) seen" "acc @ [c]"] obtain ys where
      ys: "snd (foldl (\<lambda>(seenKeys, uniq) c.
                   let key = getCharacterKey c
                   in if key \<in> seenKeys then (seenKeys, uniq)
                      else (insert key seenKeys, uniq @ [c]))
                (insert (getCharacterKey c) seen, acc @ [c]) xs) = (acc @ [c]) @ ys"
        "length ys \<le> length xs"
        "length ys = length xs
             \<longrightarrow> ys = xs \<and> distinct (map getCharacterKey xs)
                 \<and> getCharacterKey ` set xs \<inter> insert (getCharacterKey c) seen = {}"
      by blast
    with False show ?thesis
      by (intro exI[of _ "c # ys"]) (auto simp: Let_def)
  qed
qed

lemma uniqueOptions_full:
  assumes "length opts \<le> length (uniqueOptions opts)"
  shows "uniqueOptions opts = opts \<and> distinct (map getCharacterKey opts)"
  using uniqueOptions_foldl[of "{}" "[]" opts] assms
  by (auto simp: uniqueOptions_def)

lemma dedupeByKey_foldl_subset:
  "snd ` set (foldl (\<lambda>dedupedByKey c.
                 let key = getCharacterKey c
                 in if key \<in> set (map fst dedupedByKey) then dedupedByKey
                    else dedupedByKey @ [(key, c)])
              acc pool) \<subseteq> snd ` set acc \<union> set pool"
proof (induction pool arbitrary: acc)
  case Nil
  then show ?case by simp
next
  case (Cons c pool)
  show ?case
  proof (cases "getCharacterKey c \<in> set (map fst acc)")
    case True
    with Cons.IH[of acc] show ?thesis by (auto simp: Let_def)
  next
    case False
    with Cons.IH[of "acc @ [(getCharacterKey c, c)]"] show ?thesis
      by (auto simp: Let_def)
  qed
qed

lemma dedupeByKey_subset: "set (dedupeByKey pool) \<subseteq> set pool"
  using dedupeByKey_foldl_subset[of "[]" pool] by (simp add: dedupeByKey_def)

lemma buildFilteredPoolForOdd_unused:
  "c \<in> set (buildFilteredPoolForOdd s allChars g)
   \<Longrightarrow> c \<in> set allChars \<and> getCharacterKey c \<notin> usedCharacterKeys g"
  by (auto simp: buildFilteredPoolForOdd_def Let_def split: if_splits)

lemma buildFilteredPoolForOdd_p2_unused:
  "c \<in> set (buildFilteredPoolForOdd_p2 s allChars g)
   \<Longrightarrow> c \<in> set allChars \<and> getCharacterKey c \<notin> usedCharacterKeys g"
  using dedupeByKey_subset[of "buildFilteredPoolForOdd s allChars g"]
    buildFilteredPoolForOdd_unused[of c s allChars g]
  by (auto simp: buildFilteredPoolForOdd_p2_def)

lemma startNewOddRound_p2_result:
  assumes "startNewOddRound_p2 s allChars rnd g = Inr g'"
  shows "g' = g\<lparr>phase := error\<rparr>
     \<or> (\<exists>mt mg picked ot og oddC opts.
           groupsGet (groupByTier (buildFilteredPoolForOdd_p2 s allChars g)) mt = Some mg
         \<and> length picked = 3 \<and> set picked \<subseteq> set mg
         \<and> ot \<noteq> mt
         \<and> groupsGet (groupByTier (buildFilteredPoolForOdd_p2 s allChars g)) ot = Some og
         \<and> oddC \<in> set og
         \<and> mset opts = mset (picked @ [oddC])
         \<and> distinct (map getCharacterKey opts)
         \<and> g' = g\<lparr>options := opts, oddId := Some (cid oddC), phase := inRound\<rparr>)"
proof (cases "g' = g\<lparr>phase := error\<rparr>")
  case True
  then show ?thesis by simp
next
  case False
  let ?groups = "groupByTier (buildFilteredPoolForOdd_p2 s allChars g)"
  let ?tierKeys = "map fst ?groups"
  let ?cands = "candidateMajorTiers ?groups ?tierKeys"
  from assms False obtain mt mg mc where
    mt: "arrayGet ?cands (randomIndex (rnd 0) (length ?cands)) = Some mt"
    and mg: "groupsGet ?groups mt = Some mg"
    and mc: "pickRandomDistinct mg 3 (\<lambda>i. rnd (1 + i)) = Some mc"
    by (auto simp: startNewOddRound_p2_def Let_def split: if_splits option.splits)
  let ?others = "otherTiers ?groups ?tierKeys mt"
  let ?oddGroup = "case arrayGet ?others (randomIndex (rnd 4) (length ?others)) of
                        None \<Rightarrow> []
                      | Some oddTier \<Rightarrow> groupOrEmpty ?groups oddTier"
  let ?oddChar = "arrayGet ?oddGroup (randomIndex (rnd 5) (length ?oddGroup))"
  from assms False mt mg mc obtain opts oddC where
    odd: "?oddChar = Some oddC"
    and opts: "those (shuffleArray (\<lambda>i. rnd (6 + i)) (mc @ [?oddChar])) = Some opts"
    and full: "\<not> length (uniqueOptions opts) < 4"
    and g': "g' = g\<lparr>options := uniqueOptions opts, oddId := Some (cid oddC),
                       phase := inRound\<rparr>"
    by (auto simp: startNewOddRound_p2_def Let_def split: if_splits option.splits)
  from pickRandomDistinct_Some[OF mc] obtain picked where
    picked: "mc = map Some picked" "length picked = 3" "set picked \<subseteq> set mg"
    by blast
  from opts odd picked(1) have perm: "mset opts = mset (picked @ [oddC])"
    by (auto dest: shuffled_options)
  then have "length opts = length (picked @ [oddC])"
    by (rule mset_eq_length)
  with picked(2) full have "length opts \<le> length (uniqueOptions opts)"
    by simp
  from uniqueOptions_full[OF this] g'
  have uniq: "distinct (map getCharacterKey opts)"
    and g'': "g' = g\<lparr>options := opts, oddId := Some (cid oddC), phase := inRound\<rparr>"
    by simp_all
  from odd_draw[OF refl refl odd] obtain ot og where
    "ot \<noteq> mt" "groupsGet ?groups ot = Some og" "oddC \<in> set og"
    by blast
  with perm uniq g'' mg picked show ?thesis by blast
qed

section \<open>No repeats within a run\<close>

lemma runOps_commit_avoids_used:
  assumes mono: "\<forall>op \<sigma>. \<not> isRestart op \<longrightarrow> used \<sigma> \<subseteq> used (snd (step op \<sigma>))"
    and commit: "\<forall>op \<sigma> r. \<not> isRestart op \<and> fst (step op \<sigma>) = RoundCommitted r
                   \<longrightarrow> keys r \<inter> used \<sigma> = {}"
  shows "j < length ops \<Longrightarrow> list_all (\<lambda>op. \<not> isRestart op) (take (Suc j) ops)
         \<Longrightarrow> runOps step ops \<sigma> ! j = RoundCommitted r
         \<Longrightarrow> keys r \<inter> used \<sigma> = {}"
proof (induction ops arbitrary: j \<sigma>)
  case Nil
  then show ?case by simp
next
  case (Cons op ops)
  from Cons.prems(2) have nr: "\<not> isRestart op" by simp
  show ?case
  proof (cases j)
    case 0
    with Cons.prems(3) have "fst (step op \<sigma>) = RoundCommitted r" by simp
    with nr commit show ?thesis by blast
  next
    case (Suc j')
    with Cons.prems have "j' < length ops"
      "list_all (\<lambda>op. \<not> isRestart op) (take (Suc j') ops)"
      "runOps step ops (snd (step op \<sigma>)) ! j' = RoundCommitted r"
      by simp_all
    then have "keys r \<inter> used (snd (step op \<sigma>)) = {}" by (rule Cons.IH)
    moreover from mono nr have "used \<sigma> \<subseteq> used (snd (step op \<sigma>))" by blast
    ultimately show ?thesis by blast
  qed
qed

lemma runOps_no_repeat:
  assumes mono: "\<forall>op \<sigma>. \<not> isRestart op \<longrightarrow> used \<sigma> \<subseteq> used (snd (step op \<sigma>))"
    and commit: "\<forall>op \<sigma> r. \<not> isRestart op \<and> fst (step op \<sigma>) = RoundCommitted r
                   \<longrightarrow> keys r \<inter> used \<sigma> = {}"
    and resolve: "\<forall>op \<sigma> r. fst (step op \<sigma>) = RoundResolved r
                   \<longrightarrow> keys r \<subseteq> used (snd (step op \<sigma>))"
  shows "resolvedThenCommitted ops (runOps step ops \<sigma>) i j r1 r2 \<Longrightarrow> keys r1 \<inter> keys r2 = {}"
proof (induction ops arbitrary: i j \<sigma>)
  case Nil
  then show ?case by (simp add: resolvedThenCommitted_def)
next
  case (Cons op ops)
  from Cons.prems obtain j' where j: "j = Suc j'" and j': "j' < length ops"
    by (cases j) (auto simp: resolvedThenCommitted_def)
  show ?case
  proof (cases i)
    case 0
    with Cons.prems j have res: "fst (step op \<sigma>) = RoundResolved r1"
      and nr: "list_all (\<lambda>op. \<not> isRestart op) (take (Suc j') ops)"
      and com: "runOps step ops (snd (step op \<sigma>)) ! j' = RoundCommitted r2"
      by (simp_all add: resolvedThenCommitted_def)
    have "keys r2 \<inter> used (snd (step op \<sigma>)) = {}"
      using mono commit j' nr com by (rule runOps_commit_avoids_used)
    moreover from resolve res have "keys r1 \<subseteq> used (snd (step op \<sigma>))" by blast
    ultimately show ?thesis by blast
  next
    case (Suc i')
    with Cons.prems j j'
    have "resolvedThenCommitted ops (runOps step ops (snd (step op \<sigma>))) i' j' r1 r2"
      by (simp add: resolvedThenCommitted_def)
    then show ?thesis by (rule Cons.IH)
  qed
qed

lemma startNewRoundFrom_keys:
  assumes "startNewRoundFrom collect s allChars rnd g = Inr g'"
  shows "usedCharacterKeys g' = usedCharacterKeys g
       \<and> (\<forall>p. committedPair g' = RoundCommitted p
              \<longrightarrow> {getCharacterKey (fst p), getCharacterKey (snd p)} \<inter> usedCharacterKeys g = {})"
proof (cases "g' = g\<lparr>phase := error\<rparr>")
  case True
  then show ?thesis by (simp add: committedPair_def)
next
  case False
  with startNewRoundFrom_result[OF assms] obtain k tiers where
    "attemptRound (buildFilteredGroups s allChars) (collect s tiers) (rnd k) g = Inr (Some g')"
    by blast
  from attemptRound_commit[OF this] show ?thesis
    by (auto simp: committedPair_def)
qed

lemma stepGame_mono:
  assumes "\<not> isRestart op"
  shows "usedCharacterKeys (fst \<sigma>)
         \<subseteq> usedCharacterKeys (fst (snd (stepGame (startNewRoundFrom collect) allChars op \<sigma>)))"
proof (cases \<sigma>)
  case (Pair g st)
  show ?thesis
  proof (cases op)
    case (StartNewRound s rnd)
    with Pair show ?thesis
      by (auto split: sum.splits dest: startNewRoundFrom_keys)
  next
    case (HandleChoice sel)
    show ?thesis
    proof (cases rule: handleChoiceWith_cases[of recordRound sel g st])
      case invalid
      with Pair HandleChoice show ?thesis by (simp add: handleChoice_def)
    next
      case (valid l r)
      from handleChoiceWith_valid[OF valid, of recordRound st] Pair HandleChoice show ?thesis
        by (auto simp: handleChoice_def split: if_splits)
    qed
  next
    case (RestartGame s rnd)
    with assms show ?thesis by simp
  qed
qed

lemma stepGame_commit:
  assumes "\<not> isRestart op"
    and "fst (stepGame (startNewRoundFrom collect) allChars op \<sigma>) = RoundCommitted p"
  shows "pairKeys p \<inter> usedCharacterKeys (fst \<sigma>) = {}"
proof (cases \<sigma>)
  case (Pair g st)
  show ?thesis
  proof (cases op)
    case (StartNewRound s rnd)
    with Pair assms(2) obtain g' where
      "startNewRoundFrom collect s allChars rnd g = Inr g'" "committedPair g' = RoundCommitted p"
      by (auto split: sum.splits)
    with startNewRoundFrom_keys[of collect s allChars rnd g g'] Pair show ?thesis
      by (simp add: pairKeys_def)
  next
    case (HandleChoice sel)
    with Pair assms(2) show ?thesis
      by (auto split: prod.splits choiceResult.splits option.splits)
  next
    case (RestartGame s rnd)
    with assms show ?thesis by simp
  qed
qed

lemma stepGame_resolve:
  assumes "fst (stepGame (startNewRoundFrom collect) allChars op \<sigma>) = RoundResolved p"
  shows "pairKeys p \<subseteq> usedCharacterKeys (fst (snd (stepGame (startNewRoundFrom collect) allChars op \<sigma>)))"
proof (cases \<sigma>)
  case (Pair g st)
  show ?thesis
  proof (cases op)
    case (StartNewRound s rnd)
    with Pair assms show ?thesis
      by (auto simp: committedPair_def split: sum.splits option.splits if_splits)
  next
    case (HandleChoice sel)
    show ?thesis
    proof (cases rule: handleChoiceWith_cases[of recordRound sel g st])
      case invalid
      with Pair HandleChoice assms show ?thesis by (simp add: handleChoice_def)
    next
      case (valid l r)
      from handleChoiceWith_valid[OF valid, of recordRound st] Pair HandleChoice assms valid(2)
      show ?thesis
        by (auto simp: handleChoice_def pairKeys_def split: if_splits)
    qed
  next
    case (RestartGame s rnd)
    with Pair assms show ?thesis
      by (auto simp: committedPair_def split: sum.splits option.splits if_splits)
  qed
qed

lemma runGame_no_repeat:
  assumes "resolvedThenCommitted ops (runGame (startNewRoundFrom collect) allChars ops \<sigma>) i j p q"
  shows "pairKeys p \<inter> pairKeys q = {}"
proof -
  let ?step = "stepGame (startNewRoundFrom collect) allChars"
  let ?used = "\<lambda>\<sigma> :: gameState \<times> stats. usedCharacterKeys (fst \<sigma>)"
  have mono: "\<forall>op \<sigma>. \<not> isRestart op \<longrightarrow> ?used \<sigma> \<subseteq> ?used (snd (?step op \<sigma>))"
    using stepGame_mono by blast
  have commit: "\<forall>op \<sigma> r. \<not> isRestart op \<and> fst (?step op \<sigma>) = RoundCommitted r
                   \<longrightarrow> pairKeys r \<inter> ?used \<sigma> = {}"
    using stepGame_commit by blast
  have resolve: "\<forall>op \<sigma> r. fst (?step op \<sigma>) = RoundResolved r
                   \<longrightarrow> pairKeys r \<subseteq> ?used (snd (?step op \<sigma>))"
    using stepGame_resolve by blast
  from assms have "resolvedThenCommitted ops (runOps ?step ops \<sigma>) i j p q"
    by (simp add: runGame_def)
  with mono commit resolve show ?thesis by (rule runOps_no_repeat)
qed


lemma group_member_in_pool:
  "groupsGet (groupByTier pool) k = Some cs \<Longrightarrow> x \<in> set cs
   \<Longrightarrow> x \<in> set pool \<and> highestTier x = Some k"
  by (auto simp: groupsGet_def dest!: map_of_SomeD dest: groupByTier_members)

lemma startNewOddRound_keys:
  assumes "startNewOddRound s allChars rnd g = Inr g'"
  shows "usedCharacterKeys g' = usedCharacterKeys g
       \<and> (phase g' = inRound \<longrightarrow> optionKeys (options g') \<inter> usedCharacterKeys g = {})"
proof (cases "g' = g\<lparr>phase := error\<rparr>")
  case True
  then show ?thesis by simp
next
  case False
  with startNewOddRound_result[OF assms] obtain mt mg picked ot og oddC opts where
    mg: "groupsGet (groupByTier (buildFilteredPoolForOdd s allChars g)) mt = Some mg"
    and picked: "set picked \<subseteq> set mg"
    and og: "groupsGet (groupByTier (buildFilteredPoolForOdd s allChars g)) ot = Some og"
    and odd: "oddC \<in> set og"
    and perm: "mset opts = mset (picked @ [oddC])"
    and g': "g' = g\<lparr>options := opts, oddId := Some (cid oddC), phase := inRound\<rparr>"
    by blast
  from perm have "set opts = set (picked @ [oddC])" by (rule mset_eq_setD)
  with picked odd group_member_in_pool[OF mg] group_member_in_pool[OF og]
  have "set opts \<subseteq> set (buildFilteredPoolForOdd s allChars g)" by auto
  with g' show ?thesis
    by (auto simp: optionKeys_def dest: buildFilteredPoolForOdd_unused)
qed

lemma startNewOddRound_p2_keys:
  assumes "startNewOddRound_p2 s allChars rnd g = Inr g'"
  shows "usedCharacterKeys g' = usedCharacterKeys g
       \<and> (phase g' = inRound \<longrightarrow> optionKeys (options g') \<inter> usedCharacterKeys g = {})"
proof (cases "g' = g\<lparr>phase := error\<rparr>")
  case True
  then show ?thesis by simp
next
  case False
  with startNewOddRound_p2_result[OF assms] obtain mt mg picked ot og oddC opts where
    mg: "groupsGet (groupByTier (buildFilteredPoolForOdd_p2 s allChars g)) mt = Some mg"
    and picked: "set picked \<subseteq> set mg"
    and og: "groupsGet (groupByTier (buildFilteredPoolForOdd_p2 s allChars g)) ot = Some og"
    and odd: "oddC \<in> set og"
    and perm: "mset opts = mset (picked @ [oddC])"
    and g': "g' = g\<lparr>options := opts, oddId := Some (cid oddC), phase := inRound\<rparr>"
    by blast
  from perm have "set opts = set (picked @ [oddC])" by (rule mset_eq_setD)
  with picked odd group_member_in_pool[OF mg] group_member_in_pool[OF og]
  have "set opts \<subseteq> set (buildFilteredPoolForOdd_p2 s allChars g)" by auto
  with g' show ?thesis
    by (auto simp: optionKeys_def dest: buildFilteredPoolForOdd_p2_unused)
qed

lemma stepOdd_mono:
  assumes start: "\<forall>s rnd g g'. start s allChars rnd g = Inr g'
                    \<longrightarrow> usedCharacterKeys g' = usedCharacterKeys g"
    and "\<not> isRestart op"
  shows "usedCharacterKeys (fst \<sigma>)
         \<subseteq> usedCharacterKeys (fst (snd (stepOdd start allChars op \<sigma>)))"
proof (cases \<sigma>)
  case (Pair g st)
  show ?thesis
  proof (cases op)
    case (StartNewRound s rnd)
    with Pair start show ?thesis
      by (auto split: sum.splits)
  next
    case (HandleChoice sel)
    show ?thesis
    proof (cases rule: handleOddChoiceWith_cases[of recordRound sel g st])
      case (invalid msg)
      with Pair HandleChoice show ?thesis by (simp add: handleOddChoice_def)
    next
      case valid
      from handleOddChoiceWith_valid[OF valid, of recordRound st] Pair HandleChoice show ?thesis
        by (auto simp: handleOddChoice_def split: if_splits)
    qed
  next
    case (RestartGame s rnd)
    with assms show ?thesis by simp
  qed
qed

lemma stepOdd_commit:
  assumes start: "\<forall>s rnd g g'. start s allChars rnd g = Inr g' \<and> phase g' = inRound
                    \<longrightarrow> optionKeys (options g') \<inter> usedCharacterKeys g = {}"
    and "\<not> isRestart op"
    and "fst (stepOdd start allChars op \<sigma>) = RoundCommitted opts"
  shows "optionKeys opts \<inter> usedCharacterKeys (fst \<sigma>) = {}"
proof (cases \<sigma>)
  case (Pair g st)
  show ?thesis
  proof (cases op)
    case (StartNewRound s rnd)
    with Pair assms(3) obtain g' where
      "start s allChars rnd g = Inr g'" "phase g' = inRound" "opts = options g'"
      by (auto simp: committedOptions_def split: sum.splits if_splits)
    with start Pair show ?thesis by auto
  next
    case (HandleChoice sel)
    with Pair assms(3) show ?thesis
      by (auto split: prod.splits oddChoiceResult.splits)
  next
    case (RestartGame s rnd)
    with assms show ?thesis by simp
  qed
qed

lemma stepOdd_resolve:
  assumes "fst (stepOdd start allChars op \<sigma>) = RoundResolved opts"
  shows "optionKeys opts \<subseteq> usedCharacterKeys (fst (snd (stepOdd start allChars op \<sigma>)))"
proof (cases \<sigma>)
  case (Pair g st)
  show ?thesis
  proof (cases op)
    case (StartNewRound s rnd)
    with Pair assms show ?thesis
      by (auto simp: committedOptions_def split: sum.splits if_splits)
  next
    case (HandleChoice sel)
    show ?thesis
    proof (cases rule: handleOddChoiceWith_cases[of recordRound sel g st])
      case (invalid msg)
      with Pair HandleChoice assms show ?thesis by (simp add: handleOddChoice_def)
    next
      case valid
      from handleOddChoiceWith_valid[OF valid, of recordRound st] Pair HandleChoice assms
      show ?thesis
        by (auto simp: handleOddChoice_def optionKeys_def split: if_splits)
    qed
  next
    case (RestartGame s rnd)
    with Pair assms show ?thesis
      by (auto simp: committedOptions_def split: sum.splits if_splits)
  qed
qed

lemma runOdd_no_repeat:
  assumes start: "\<forall>s rnd g g'. start s allChars rnd g = Inr g'
        \<longrightarrow> usedCharacterKeys g' = usedCharacterKeys g
          \<and> (phase g' = inRound \<longrightarrow> optionKeys (options g') \<inter> usedCharacterKeys g = {})"
    and run: "resolvedThenCommitted ops (runOdd start allChars ops \<sigma>) i j opts1 opts2"
  shows "optionKeys opts1 \<inter> optionKeys opts2 = {}"
proof -
  let ?step = "stepOdd start allChars"
  let ?used = "\<lambda>\<sigma> :: oddGameState \<times> stats. usedCharacterKeys (fst \<sigma>)"
  from start have s1: "\<forall>s rnd g g'. start s allChars rnd g = Inr g'
                    \<longrightarrow> usedCharacterKeys g' = usedCharacterKeys g"
    and s2: "\<forall>s rnd g g'. start s allChars rnd g = Inr g' \<and> phase g' = inRound
                    \<longrightarrow> optionKeys (options g') \<inter> usedCharacterKeys g = {}"
    by blast+
  have mono: "\<forall>op \<sigma>. \<not> isRestart op \<longrightarrow> ?used \<sigma> \<subseteq> ?used (snd (?step op \<sigma>))"
    using stepOdd_mono[where start = start and allChars = allChars, OF s1] by blast
  have commit: "\<forall>op \<sigma> r. \<not> isRestart op \<and> fst (?step op \<sigma>) = RoundCommitted r
                   \<longrightarrow> optionKeys r \<inter> ?used \<sigma> = {}"
    using stepOdd_commit[where start = start and allChars = allChars, OF s2] by blast
  have resolve: "\<forall>op \<sigma> r. fst (?step op \<sigma>) = RoundResolved r
                   \<longrightarrow> optionKeys r \<subseteq> ?used (snd (?step op \<sigma>))"
    using stepOdd_resolve by blast
  from run have "resolvedThenCommitted ops (runOps ?step ops \<sigma>) i j opts1 opts2"
    by (simp add: runOdd_def)
  with mono commit resolve show ?thesis by (rule runOps_no_repeat)
qed

text \<open>
  C3. In a sequence of calls on an engine, from any state: when one call resolves a
  round and a later call commits a round, with no restart after the first of the two,
  no identity key of the resolved round's characters is a key of the committed
  round's characters. Both engines, both copies of each.
\<close>

theorem no_repeat_within_run:
  "(resolvedThenCommitted ops (runGame startNewRound allChars ops (g, st)) i j p q
      \<longrightarrow> pairKeys p \<inter> pairKeys q = {})
   \<and> (resolvedThenCommitted ops (runGame startNewRound_p4 allChars ops (g, st)) i j p q
      \<longrightarrow> pairKeys p \<inter> pairKeys q = {})
   \<and> (resolvedThenCommitted oddOps (runOdd startNewOddRound allChars oddOps (og, st)) i j
        opts1 opts2
      \<longrightarrow> optionKeys opts1 \<inter> optionKeys opts2 = {})
   \<and> (resolvedThenCommitted oddOps (runOdd startNewOddRound_p2 allChars oddOps (og, st)) i j
        opts1 opts2
      \<longrightarrow> optionKeys opts1 \<inter> optionKeys opts2 = {})"
proof (intro conjI impI)
  assume "resolvedThenCommitted ops (runGame startNewRound allChars ops (g, st)) i j p q"
  then show "pairKeys p \<inter> pairKeys q = {}"
    unfolding startNewRound_def by (rule runGame_no_repeat)
next
  assume "resolvedThenCommitted ops (runGame startNewRound_p4 allChars ops (g, st)) i j p q"
  then show "pairKeys p \<inter> pairKeys q = {}"
    unfolding startNewRound_p4_def by (rule runGame_no_repeat)
next
  assume "resolvedThenCommitted oddOps (runOdd startNewOddRound allChars oddOps (og, st)) i j
        opts1 opts2"
  with startNewOddRound_keys show "optionKeys opts1 \<inter> optionKeys opts2 = {}"
    by (intro runOdd_no_repeat[where start = startNewOddRound]) blast+
next
  assume "resolvedThenCommitted oddOps (runOdd startNewOddRound_p2 allChars oddOps (og, st)) i j
        opts1 opts2"
  with startNewOddRound_p2_keys show "optionKeys opts1 \<inter> optionKeys opts2 = {}"
    by (intro runOdd_no_repeat[where start = startNewOddRound_p2]) blast+
qed

lemma example_run:
  "runGame startNewRound [ann, bob, cat, dan]
     [StartNewRound normalSettings zeroDraws, HandleChoice ''b'',
      StartNewRound normalSettings countDraws] (initGameState, zeroStats)
   = [RoundCommitted (ann, bob), RoundResolved (ann, bob), RoundCommitted (cat, dan)]"
  by code_simp

theorem no_repeat_within_run_witness:
  "runGame startNewRound [ann, bob, cat, dan]
     [StartNewRound normalSettings zeroDraws, HandleChoice ''b'',
      StartNewRound normalSettings countDraws] (initGameState, zeroStats)
   = [RoundCommitted (ann, bob), RoundResolved (ann, bob), RoundCommitted (cat, dan)]
   \<and> pairKeys (ann, bob) \<inter> pairKeys (cat, dan) = {}"
  using no_repeat_within_run
    [where ops = "[StartNewRound normalSettings zeroDraws, HandleChoice ''b'',
                   StartNewRound normalSettings countDraws]"
       and allChars = "[ann, bob, cat, dan]" and g = initGameState and st = zeroStats
       and i = 1 and j = 2 and p = "(ann, bob)" and q = "(cat, dan)"]
    example_run
  by (simp add: resolvedThenCommitted_def)

section \<open>Odd-One-Out engine: the shape of a committed round\<close>

lemma length_filter_mset_eq:
  assumes "mset xs = mset ys"
  shows "length (filter P xs) = length (filter P ys)"
proof -
  have "length (filter P xs) = size (filter_mset P (mset xs))"
    by (simp flip: mset_filter)
  also have "\<dots> = size (filter_mset P (mset ys))"
    by (simp add: assms)
  also have "\<dots> = length (filter P ys)"
    by (simp flip: mset_filter)
  finally show ?thesis .
qed

lemma three_and_one:
  assumes perm: "mset opts = mset (picked @ [oddC])"
    and len: "length picked = 3"
    and major: "\<forall>c \<in> set picked. highestTier c = Some mt"
    and odd: "highestTier oddC \<noteq> Some mt"
  shows "length opts = 4
       \<and> length (filter (\<lambda>c. highestTier c = Some mt) opts) = 3
       \<and> length (filter (\<lambda>c. highestTier c \<noteq> Some mt) opts) = 1
       \<and> oddC \<in> set opts"
proof -
  from perm have "length opts = length (picked @ [oddC])" by (rule mset_eq_length)
  with len have l4: "length opts = 4" by simp
  from major have f1: "filter (\<lambda>c. highestTier c = Some mt) picked = picked"
    and f2: "filter (\<lambda>c. highestTier c \<noteq> Some mt) picked = []"
    by (simp_all add: filter_id_conv filter_empty_conv)
  have "length (filter (\<lambda>c. highestTier c = Some mt) opts)
          = length (filter (\<lambda>c. highestTier c = Some mt) (picked @ [oddC]))"
    using perm by (rule length_filter_mset_eq)
  with f1 odd len have c3: "length (filter (\<lambda>c. highestTier c = Some mt) opts) = 3"
    by simp
  have "length (filter (\<lambda>c. highestTier c \<noteq> Some mt) opts)
          = length (filter (\<lambda>c. highestTier c \<noteq> Some mt) (picked @ [oddC]))"
    using perm by (rule length_filter_mset_eq)
  with f2 odd have c1: "length (filter (\<lambda>c. highestTier c \<noteq> Some mt) opts) = 1"
    by simp
  from perm have "set opts = set (picked @ [oddC])" by (rule mset_eq_setD)
  then have "oddC \<in> set opts" by simp
  with l4 c3 c1 show ?thesis by simp
qed

text \<open>
  In both copies a committed round has 4 options, exactly 3 of them of one tier and
  exactly 1 of another tier, and oddId is the id of that one.
\<close>

lemma odd_round_three_and_one:
  assumes "startNewOddRound s allChars rnd g = Inr g'" and "phase g' = inRound"
  shows "length (options g') = 4
       \<and> (\<exists>t oddC. length (filter (\<lambda>c. highestTier c = Some t) (options g')) = 3
             \<and> length (filter (\<lambda>c. highestTier c \<noteq> Some t) (options g')) = 1
             \<and> oddC \<in> set (options g') \<and> highestTier oddC \<noteq> Some t
             \<and> oddId g' = Some (cid oddC))"
proof -
  from assms have "g' \<noteq> g\<lparr>phase := error\<rparr>" by auto
  with startNewOddRound_result[OF assms(1)] obtain mt mg picked ot og oddC opts where
    mg: "groupsGet (groupByTier (buildFilteredPoolForOdd s allChars g)) mt = Some mg"
    and picked: "length picked = 3" "set picked \<subseteq> set mg"
    and ot: "ot \<noteq> mt"
    and og: "groupsGet (groupByTier (buildFilteredPoolForOdd s allChars g)) ot = Some og"
    and odd: "oddC \<in> set og"
    and perm: "mset opts = mset (picked @ [oddC])"
    and g': "g' = g\<lparr>options := opts, oddId := Some (cid oddC), phase := inRound\<rparr>"
    by blast
  from picked(2) group_member_in_pool[OF mg]
  have major: "\<forall>c \<in> set picked. highestTier c = Some mt" by blast
  from odd ot group_member_in_pool[OF og] have minor: "highestTier oddC \<noteq> Some mt" by auto
  from three_and_one[OF perm picked(1) major minor] minor g' show ?thesis
    by auto
qed

text \<open>
  In the copy src/unnamed/part_002 the four identity keys are pairwise distinct as
  well: the claim C2 holds there in full.
\<close>

lemma odd_round_shape_p2:
  assumes "startNewOddRound_p2 s allChars rnd g = Inr g'" and "phase g' = inRound"
  shows "length (options g') = 4
       \<and> distinct (map getCharacterKey (options g'))
       \<and> (\<exists>t oddC. length (filter (\<lambda>c. highestTier c = Some t) (options g')) = 3
             \<and> length (filter (\<lambda>c. highestTier c \<noteq> Some t) (options g')) = 1
             \<and> oddC \<in> set (options g') \<and> highestTier oddC \<noteq> Some t
             \<and> oddId g' = Some (cid oddC))"
proof -
  from assms have "g' \<noteq> g\<lparr>phase := error\<rparr>" by auto
  with startNewOddRound_p2_result[OF assms(1)] obtain mt mg picked ot og oddC opts where
    mg: "groupsGet (groupByTier (buildFilteredPoolForOdd_p2 s allChars g)) mt = Some mg"
    and picked: "length picked = 3" "set picked \<subseteq> set mg"
    and ot: "ot \<noteq> mt"
    and og: "groupsGet (groupByTier (buildFilteredPoolForOdd_p2 s allChars g)) ot = Some og"
    and odd: "oddC \<in> set og"
    and perm: "mset opts = mset (picked @ [oddC])"
    and uniq: "distinct (map getCharacterKey opts)"
    and g': "g' = g\<lparr>options := opts, oddId := Some (cid oddC), phase := inRound\<rparr>"
    by blast
  from picked(2) group_member_in_pool[OF mg]
  have major: "\<forall>c \<in> set picked. highestTier c = Some mt" by blast
  from odd ot group_member_in_pool[OF og] have minor: "highestTier oddC \<noteq> Some mt" by auto
  from three_and_one[OF perm picked(1) major minor] minor uniq g' show ?thesis
    by auto
qed

text \<open>
  C2 fails on src/js/gameLogicOdd.js. The pool holds two records of the same character
  (name "Pia", origin "S", ids p1 and p2) in tier "1-A", one more "1-A" character and
  two "1-B" characters. With every draw 0, startNewOddRound commits the options
  p2, q, u, p1: both records of Pia, so only 3 distinct identity keys. On the same pool
  the copy src/unnamed/part_002 commits nothing and sets the phase to error.
\<close>

theorem odd_round_duplicate_key:
  "startNewOddRound normalSettings [pia, pia2, quin, uma, val] zeroDrawsOdd initOddGameState
     = Inr (initOddGameState\<lparr>options := [pia2, quin, uma, pia], oddId := Some ''u'',
                             phase := inRound\<rparr>)
   \<and> getCharacterKey pia2 = getCharacterKey pia
   \<and> \<not> distinct (map getCharacterKey [pia2, quin, uma, pia])
   \<and> startNewOddRound_p2 normalSettings [pia, pia2, quin, uma, val] zeroDrawsOdd initOddGameState
     = Inr (initOddGameState\<lparr>phase := error\<rparr>)"
  by code_simp

text \<open>
  The copy src/unnamed/part_004 can raise: outside veryHardMode it keeps only the
  pairs with \<open>distance > 0\<close>, two labels that are both missing from the ladder have
  distance 0, and the empty candidate list is only checked under veryHardMode, so the
  first pass destructures \<open>undefined\<close>. dataLoader.js never produces such labels
  (computeHighestTier returns ladder labels only), and src/js/gameLogic.js keeps every
  pair outside veryHardMode.
\<close>

lemma startNewRound_p4_unranked_raises:
  "startNewRound_p4 normalSettings
     [mkChar ''x'' ''Xan'' ''S'' ''X'', mkChar ''y'' ''Yul'' ''S'' ''Y''] zeroDraws initGameState
   = Inl TypeError"
  by code_simp

end
